theory Spec2Isabelle
  imports Main "HOL-Library.Word" "HOL-Library.Sublist" "HOL-Library.Multiset"
begin

text \<open>
  A model of the HL7 receiving server of \<open>hl7_server.py\<close>: the acknowledgment builder
  (\<open>create_ack\<close>, \<open>create_nak\<close>), the message store (\<open>count_message_files\<close>,
  \<open>cleanup_old_files\<close>, \<open>save_message\<close>) and the connection handler (\<open>process_message\<close>,
  \<open>handle_client\<close> with its frame splitter). One connection is followed from its first
  \<open>recv\<close> to the closing of the socket; the state it changes (directory, log, socket) is
  passed explicitly, and every exception the source catches is a branch of the model.
  The accept loop, the threads and the lock are not modelled.
\<close>

section \<open>Text, bytes and the clock\<close>

text \<open>
  A Python \<open>str\<close> is a sequence of Unicode code points, so text is a list of code points
  (\<open>len\<close>, slicing and \<open>find\<close> count code points, not bytes). \<open>u\<close> turns an ASCII literal
  into such text. A raised exception is identified by its description \<open>str(e)\<close>.
\<close>

type_synonym ustring = "nat list"
type_synonym byte = "8 word"
type_synonym exn = ustring

definition u :: "string \<Rightarrow> ustring" where
  "u s = map of_char s"

abbreviation FS :: nat where "FS \<equiv> 0x1C"
abbreviation CR :: nat where "CR \<equiv> 0x0D"
abbreviation LF :: nat where "LF \<equiv> 0x0A"
abbreviation BAR :: nat where "BAR \<equiv> 0x7C"
abbreviation BACKSLASH :: nat where "BACKSLASH \<equiv> 0x5C"

text \<open>\<open>xs[i]\<close> on a Python list: an index past the end raises IndexError.\<close>

definition getitem :: "'a list \<Rightarrow> nat \<Rightarrow> exn + 'a" where
  "getitem xs i = (if i < length xs then Inr (xs ! i) else Inl (u ''list index out of range''))"

text \<open>
  A reading of \<open>datetime.datetime.now()\<close>. \<open>zpad k n\<close> is the zero-padded decimal field
  of width \<open>k\<close> that \<open>strftime\<close> prints for \<open>%Y\<close> (width 4) and \<open>%m %d %H %M %S\<close> (width 2).
\<close>

record datetime =
  year :: nat
  month :: nat
  day :: nat
  hour :: nat
  minute :: nat
  second :: nat
  microsecond :: nat

definition digit :: "nat \<Rightarrow> nat" where
  "digit d = 48 + d mod 10"

fun zpad :: "nat \<Rightarrow> nat \<Rightarrow> ustring" where
  "zpad 0 n = []"
| "zpad (Suc k) n = zpad k (n div 10) @ [digit n]"

text \<open>\<open>strftime('%Y%m%d%H%M%S')\<close>\<close>

definition strftime_compact :: "datetime \<Rightarrow> ustring" where
  "strftime_compact t =
     zpad 4 (year t) @ zpad 2 (month t) @ zpad 2 (day t) @
     zpad 2 (hour t) @ zpad 2 (minute t) @ zpad 2 (second t)"

section \<open>Acknowledgment builder\<close>

text \<open>
  \<open>HL7Server.create_ack\<close>. The header \<open>original_msh\<close> is the MSH segment as the hl7
  library returns it, each field rendered by \<open>str\<close>. Fields 3 and 4 are read without a
  length check, so a header of at most four fields raises IndexError.
\<close>

definition create_ack :: "datetime \<Rightarrow> ustring list \<Rightarrow> exn + ustring" where
  "create_ack now original_msh =
     (let timestamp = strftime_compact now;
          control_id = (if length original_msh > 10 then original_msh ! 10 else u ''UNKNOWN'')
      in case getitem original_msh 3 of
           Inl e \<Rightarrow> Inl e
         | Inr f3 \<Rightarrow>
             (case getitem original_msh 4 of
                Inl e \<Rightarrow> Inl e
              | Inr f4 \<Rightarrow>
                  (let ack = u ''MSH|^~'' @ [BACKSLASH] @ u ''&|HL7_SERVER||'' @ f3 @ u ''|'' @ f4 @
                             u ''|'' @ timestamp @ u ''||ACK|'' @ control_id @ u ''_ACK|P|2.3.1'' @ [CR];
                       ack = ack @ u ''MSA|AA|'' @ control_id @ u ''|Message accepted'' @ [CR]
                   in Inr (ack @ [FS]))))"

text \<open>\<open>HL7Server.create_nak\<close>; \<open>error_msg[:100]\<close> is \<open>take 100\<close>.\<close>

definition create_nak :: "datetime \<Rightarrow> ustring \<Rightarrow> ustring \<Rightarrow> ustring" where
  "create_nak now control_id error_msg =
     (let timestamp = strftime_compact now;
          nak = u ''MSH|^~'' @ [BACKSLASH] @ u ''&|HL7_SERVER||||'' @ timestamp @
                u ''||ACK|'' @ control_id @ u ''_NAK|P|2.3.1'' @ [CR];
          nak = nak @ u ''MSA|AE|'' @ control_id @ u ''|'' @ take 100 error_msg @ [CR]
      in nak @ [FS])"

text \<open>
  How a receiver reads a reply: \<open>split_on sep s\<close> is Python's \<open>s.split(sep)\<close> for a
  one-character separator, used to cut a reply into segments (at CR) and a segment into
  fields (at the bar).
\<close>

fun split_on :: "nat \<Rightarrow> ustring \<Rightarrow> ustring list" where
  "split_on sep [] = [[]]"
| "split_on sep (c # cs) =
     (if c = sep then [] # split_on sep cs
      else (case split_on sep cs of [] \<Rightarrow> [[c]] | p # ps \<Rightarrow> (c # p) # ps))"

fun join :: "nat \<Rightarrow> ustring list \<Rightarrow> ustring" where
  "join sep [] = []"
| "join sep [p] = p"
| "join sep (p # q # ps) = p @ sep # join sep (q # ps)"

section \<open>Python text operations used by the server\<close>

text \<open>\<open>str(n)\<close> for an integer, as the f-strings of the log lines and the file header print it.\<close>

fun str_nat :: "nat \<Rightarrow> ustring" where
  "str_nat n = (if n < 10 then [digit n] else str_nat (n div 10) @ [digit n])"

declare str_nat.simps [simp del]

definition str_int :: "int \<Rightarrow> ustring" where
  "str_int i = (if i < 0 then 0x2D # str_nat (nat (- i)) else str_nat (nat i))"

text \<open>\<open>s.replace(a, b)\<close> for one-character \<open>a\<close> and \<open>b\<close>.\<close>

definition replace :: "nat \<Rightarrow> nat \<Rightarrow> ustring \<Rightarrow> ustring" where
  "replace a b s = map (\<lambda>c. if c = a then b else c) s"

text \<open>
  \<open>s.find(c)\<close>: the index of the first occurrence, or \<open>-1\<close> when there is none.
\<close>

definition find_char :: "ustring \<Rightarrow> nat \<Rightarrow> int" where
  "find_char s c = (if c \<in> set s then int (length (takeWhile (\<lambda>x. x \<noteq> c) s)) else - 1)"

text \<open>
  \<open>s.strip()\<close> removes leading and trailing whitespace, where whitespace is what
  \<open>str.isspace\<close> accepts: besides tab, line feed, vertical tab, form feed, carriage return
  and space it includes the separators 0x1C to 0x1F, so the hard terminator itself counts
  as whitespace.
\<close>

definition is_space :: "nat \<Rightarrow> bool" where
  "is_space c \<longleftrightarrow>
     (0x09 \<le> c \<and> c \<le> 0x0D) \<or> (0x1C \<le> c \<and> c \<le> 0x20) \<or> c = 0x85 \<or> c = 0xA0 \<or>
     c = 0x1680 \<or> (0x2000 \<le> c \<and> c \<le> 0x200A) \<or> c = 0x2028 \<or> c = 0x2029 \<or>
     c = 0x202F \<or> c = 0x205F \<or> c = 0x3000"

definition strip :: "ustring \<Rightarrow> ustring" where
  "strip s = rev (dropWhile is_space (rev (dropWhile is_space s)))"

text \<open>
  \<open>bytes.decode('utf-8', errors='ignore')\<close>: a well-formed UTF-8 sequence yields its code
  point, and a byte that starts no well-formed sequence is dropped. The well-formed
  sequences are those of the Unicode standard: no overlong forms, no surrogates, nothing
  above 0x10FFFF. The decoder never raises.
\<close>

definition is_cont :: "byte \<Rightarrow> bool" where
  "is_cont b \<longleftrightarrow> 0x80 \<le> b \<and> b \<le> 0xBF"

fun utf8_head :: "byte list \<Rightarrow> (nat \<times> nat) option" where
  "utf8_head [] = None"
| "utf8_head (b1 # bs) =
     (if b1 < 0x80 then Some (unat b1, 1)
      else if 0xC2 \<le> b1 \<and> b1 \<le> 0xDF then
        (case bs of
           b2 # _ \<Rightarrow>
             if is_cont b2 then Some ((unat b1 - 0xC0) * 64 + (unat b2 - 0x80), 2) else None
         | _ \<Rightarrow> None)
      else if 0xE0 \<le> b1 \<and> b1 \<le> 0xEF then
        (case bs of
           b2 # b3 # _ \<Rightarrow>
             if is_cont b2 \<and> is_cont b3 \<and> (b1 = 0xE0 \<longrightarrow> 0xA0 \<le> b2) \<and> (b1 = 0xED \<longrightarrow> b2 \<le> 0x9F)
             then Some ((unat b1 - 0xE0) * 4096 + (unat b2 - 0x80) * 64 + (unat b3 - 0x80), 3)
             else None
         | _ \<Rightarrow> None)
      else if 0xF0 \<le> b1 \<and> b1 \<le> 0xF4 then
        (case bs of
           b2 # b3 # b4 # _ \<Rightarrow>
             if is_cont b2 \<and> is_cont b3 \<and> is_cont b4 \<and>
                (b1 = 0xF0 \<longrightarrow> 0x90 \<le> b2) \<and> (b1 = 0xF4 \<longrightarrow> b2 \<le> 0x8F)
             then Some ((unat b1 - 0xF0) * 262144 + (unat b2 - 0x80) * 4096 +
                        (unat b3 - 0x80) * 64 + (unat b4 - 0x80), 4)
             else None
         | _ \<Rightarrow> None)
      else None)"

fun decode_ignore :: "byte list \<Rightarrow> ustring" where
  "decode_ignore [] = []"
| "decode_ignore (b # bs) =
     (case utf8_head (b # bs) of
        Some (c, k) \<Rightarrow> c # decode_ignore (drop (k - 1) bs)
      | None \<Rightarrow> decode_ignore bs)"

text \<open>\<open>strftime('%Y%m%d_%H%M%S')\<close> and \<open>isoformat()\<close>, used for the file name and the file header.\<close>

definition strftime_file :: "datetime \<Rightarrow> ustring" where
  "strftime_file t =
     zpad 4 (year t) @ zpad 2 (month t) @ zpad 2 (day t) @ u ''_'' @
     zpad 2 (hour t) @ zpad 2 (minute t) @ zpad 2 (second t)"

definition isoformat :: "datetime \<Rightarrow> ustring" where
  "isoformat t =
     zpad 4 (year t) @ u ''-'' @ zpad 2 (month t) @ u ''-'' @ zpad 2 (day t) @ u ''T'' @
     zpad 2 (hour t) @ u '':'' @ zpad 2 (minute t) @ u '':'' @ zpad 2 (second t) @
     (if microsecond t = 0 then [] else u ''.'' @ zpad 6 (microsecond t))"

section \<open>The server's world: message directory, log, socket, clock\<close>

text \<open>
  The message directory is the list of its entries in the order \<open>glob\<close> yields them; an
  entry has a name, a modification time and its text. The log is the list of records the
  logger received. \<open>sent\<close> is what the client socket carried so far, \<open>sends\<close> counts the
  calls of \<open>send\<close> and \<open>clock_reads\<close> the calls of \<open>datetime.now()\<close>.

  What the operating system and the hl7 library answer is not decided by the server, so it
  is a parameter: \<open>hl7_msh\<close> is \<open>hl7.parse(text).segment('MSH')\<close> with each field rendered
  by \<open>str\<close> (or the exception it raises), \<open>clock\<close> and \<open>fs_time\<close> are the readings of the
  wall clock and of the file system's clock, and the fault fields say which system calls
  raise: listing the directory, \<open>stat\<close> and \<open>unlink\<close> of a name, opening or writing a name,
  and the n-th \<open>send\<close>.
\<close>

datatype level = INFO | WARNING | ERROR

record entry =
  fname :: ustring
  mtime :: int
  body :: ustring

datatype write_fault = OpenFails exn | WriteFails exn

record env =
  hl7_msh :: "ustring \<Rightarrow> exn + ustring list"
  clock :: "nat \<Rightarrow> datetime"
  fs_time :: "nat \<Rightarrow> int"
  glob_fault :: "exn option"
  stat_fault :: "ustring \<Rightarrow> exn option"
  unlink_fault :: "ustring \<Rightarrow> exn option"
  write_fault :: "ustring \<Rightarrow> write_fault option"
  send_fault :: "nat \<Rightarrow> exn option"

record world =
  files :: "entry list"
  logged :: "(level \<times> ustring) list"
  sent :: "ustring list"
  sends :: nat
  clock_reads :: nat

record server =
  max_files :: int
  running :: bool

definition logger :: "level \<Rightarrow> ustring \<Rightarrow> world \<Rightarrow> world" where
  "logger lvl msg w = w\<lparr>logged := logged w @ [(lvl, msg)]\<rparr>"

definition tick :: "world \<Rightarrow> world" where
  "tick w = w\<lparr>clock_reads := clock_reads w + 1\<rparr>"

text \<open>
  \<open>client_socket.send(data.encode('utf-8'))\<close>: the text goes on the wire, or the call
  raises. \<open>sent\<close> keeps the text handed over, of which the bytes are the UTF-8 encoding.
\<close>

definition send :: "env \<Rightarrow> ustring \<Rightarrow> world \<Rightarrow> exn option \<times> world" where
  "send env data w =
     (case send_fault env (sends w) of
        None \<Rightarrow> (None, w\<lparr>sent := sent w @ [data], sends := sends w + 1\<rparr>)
      | Some e \<Rightarrow> (Some e, w\<lparr>sends := sends w + 1\<rparr>))"

section \<open>Message store\<close>

text \<open>\<open>message_dir.glob('*.hl7')\<close>: the entries whose name ends in \<open>.hl7\<close>.\<close>

definition is_hl7 :: "ustring \<Rightarrow> bool" where
  "is_hl7 name = suffix (u ''.hl7'') name"

definition glob_hl7 :: "entry list \<Rightarrow> entry list" where
  "glob_hl7 fs = filter (\<lambda>f. is_hl7 (fname f)) fs"

text \<open>\<open>HL7Server.count_message_files\<close>: 0 when listing the directory raises.\<close>

definition count_message_files :: "env \<Rightarrow> world \<Rightarrow> nat" where
  "count_message_files env w =
     (case glob_fault env of
        None \<Rightarrow> length (glob_hl7 (files w))
      | Some e \<Rightarrow> 0)"

text \<open>
  The first loop of \<open>cleanup_old_files\<close>: the pairs (mtime, path) of the entries whose
  \<open>stat\<close> does not raise; an entry whose \<open>stat\<close> raises is skipped.
\<close>

definition stat_all :: "env \<Rightarrow> entry list \<Rightarrow> (int \<times> ustring) list" where
  "stat_all env fs =
     map (\<lambda>f. (mtime f, fname f)) (filter (\<lambda>f. stat_fault env (fname f) = None) (glob_hl7 fs))"

text \<open>\<open>file_path.unlink()\<close> removes the entry of that name.\<close>

definition unlink :: "ustring \<Rightarrow> entry list \<Rightarrow> entry list" where
  "unlink name fs = filter (\<lambda>f. fname f \<noteq> name) fs"

text \<open>
  The second loop of \<open>cleanup_old_files\<close>, over the paths chosen for removal; it returns
  the world and \<open>removed_count\<close>. A failed \<open>unlink\<close> logs a warning and the loop goes on.
\<close>

fun unlink_each :: "env \<Rightarrow> ustring list \<Rightarrow> nat \<Rightarrow> world \<Rightarrow> world \<times> nat" where
  "unlink_each env [] removed_count w = (w, removed_count)"
| "unlink_each env (file_path # rest) removed_count w =
     (case unlink_fault env file_path of
        None \<Rightarrow> unlink_each env rest (removed_count + 1) (w\<lparr>files := unlink file_path (files w)\<rparr>)
      | Some e \<Rightarrow>
          unlink_each env rest removed_count
            (logger WARNING (u ''Could not remove old file '' @ file_path @ u '': '' @ e) w))"

text \<open>\<open>HL7Server.cleanup_old_files\<close>. Python's \<open>sort\<close> is stable, as \<open>sort_key\<close> is.\<close>

definition cleanup_old_files :: "env \<Rightarrow> world \<Rightarrow> world" where
  "cleanup_old_files env w =
     (case glob_fault env of
        Some e \<Rightarrow> logger ERROR (u ''Error during file cleanup: '' @ e) w
      | None \<Rightarrow>
          (let listed = sort_key fst (stat_all env (files w));
               files_to_remove = length listed div 2
           in if files_to_remove > 0 then
                (case unlink_each env (map snd (take files_to_remove listed)) 0 w of
                   (w', removed_count) \<Rightarrow>
                     if removed_count > 0 then
                       logger INFO (u ''Batch cleanup: removed '' @ str_nat removed_count @
                                    u '' oldest files, '' @ str_nat (length listed - removed_count) @
                                    u '' files remaining'') w'
                     else w')
              else w))"

text \<open>
  Writing \<open>open(filepath, 'w')\<close>: an existing entry of that name is replaced, a new name is
  added. A name with a slash is a path into a subdirectory, not an entry of the message
  directory.
\<close>

definition put_file :: "entry \<Rightarrow> entry list \<Rightarrow> entry list" where
  "put_file f fs =
     (if 0x2F \<in> set (fname f) then fs
      else if fname f \<in> set (map fname fs) then map (\<lambda>g. if fname g = fname f then f else g) fs
      else fs @ [f])"

text \<open>The file name \<open>save_message\<close> builds; \<open>msg_type.replace('^', '_')\<close>.\<close>

definition message_filename :: "datetime \<Rightarrow> ustring \<Rightarrow> ustring \<Rightarrow> ustring" where
  "message_filename timestamp control_id msg_type =
     strftime_file timestamp @ u ''_'' @ control_id @ u ''_'' @ replace 0x5E 0x5F msg_type @ u ''.hl7''"

text \<open>What \<open>save_message\<close> writes into the file: a commented header, then the message.\<close>

definition file_text :: "datetime \<Rightarrow> ustring \<times> nat \<Rightarrow> ustring \<Rightarrow> ustring \<Rightarrow> ustring \<Rightarrow> ustring" where
  "file_text timestamp client_address control_id msg_type message_text =
     u ''# Received: '' @ isoformat timestamp @ [LF] @
     u ''# From: '' @ fst client_address @ u '':'' @ str_nat (snd client_address) @ [LF] @
     u ''# Control ID: '' @ control_id @ [LF] @
     u ''# Message Type: '' @ msg_type @ [LF] @
     u ''#'' @ replicate 50 0x3D @ [LF] @
     message_text @ [LF]"

text \<open>
  \<open>HL7Server.save_message\<close>. It returns nothing: every exception is caught and logged
  inside. When \<open>open\<close> raises no file appears; when a later write raises the file exists,
  truncated.
\<close>

definition save_message ::
  "server \<Rightarrow> env \<Rightarrow> ustring \<Rightarrow> ustring \<Rightarrow> ustring \<Rightarrow> ustring \<times> nat \<Rightarrow> world \<Rightarrow> world" where
  "save_message srv env message_text control_id msg_type client_address w =
     (let current_count = count_message_files env w;
          w = (if int current_count \<ge> max_files srv then
                 cleanup_old_files env
                   (logger INFO (u ''File limit reached ('' @ str_nat current_count @ u ''/'' @
                                 str_int (max_files srv) @ u ''), performing batch cleanup...'') w)
               else w);
          timestamp = clock env (clock_reads w);
          mt = fs_time env (clock_reads w);
          w = tick w;
          filename = message_filename timestamp control_id msg_type;
          content = file_text timestamp client_address control_id msg_type message_text
      in case write_fault env filename of
           Some (OpenFails e) \<Rightarrow> logger ERROR (u ''Failed to save message: '' @ e) w
         | Some (WriteFails e) \<Rightarrow>
             logger ERROR (u ''Failed to save message: '' @ e)
               (w\<lparr>files := put_file \<lparr>fname = filename, mtime = mt, body = []\<rparr> (files w)\<rparr>)
         | None \<Rightarrow>
             (let w = w\<lparr>files := put_file \<lparr>fname = filename, mtime = mt, body = content\<rparr> (files w)\<rparr>;
                  final_count = count_message_files env w
              in logger INFO (u ''Message saved to '' @ filename @ u '' ('' @ str_nat final_count @
                              u ''/'' @ str_int (max_files srv) @ u '' files)'') w))"

text \<open>
  Names for what \<open>cleanup_old_files\<close> computes on the way: \<open>listed_of\<close> is its list
  \<open>files\<close> after the sort, \<open>victims_of\<close> the paths of \<open>files[:files_to_remove]\<close>, and
  \<open>unlink_warning\<close> the record logged for a path whose \<open>unlink\<close> raised.
\<close>

definition listed_of :: "env \<Rightarrow> world \<Rightarrow> (int \<times> ustring) list" where
  "listed_of env w = sort_key fst (stat_all env (files w))"

definition victims_of :: "env \<Rightarrow> world \<Rightarrow> ustring list" where
  "victims_of env w = map snd (take (length (listed_of env w) div 2) (listed_of env w))"

definition unlink_warning :: "ustring \<Rightarrow> exn \<Rightarrow> level \<times> ustring" where
  "unlink_warning file_path e =
     (WARNING, u ''Could not remove old file '' @ file_path @ u '': '' @ e)"

definition unlink_warnings :: "env \<Rightarrow> ustring list \<Rightarrow> (level \<times> ustring) list" where
  "unlink_warnings env ps =
     concat (map (\<lambda>p. case unlink_fault env p of None \<Rightarrow> [] | Some e \<Rightarrow> [unlink_warning p e]) ps)"

text \<open>The world in which \<open>save_message\<close> writes: after the cleanup, if one was due.\<close>

definition before_write :: "server \<Rightarrow> env \<Rightarrow> world \<Rightarrow> world" where
  "before_write srv env w =
     (if int (count_message_files env w) \<ge> max_files srv then
        cleanup_old_files env
          (logger INFO (u ''File limit reached ('' @ str_nat (count_message_files env w) @ u ''/'' @
                        str_int (max_files srv) @ u ''), performing batch cleanup...'') w)
      else w)"

section \<open>Connection handler\<close>

text \<open>
  The \<open>except\<close> branch of \<open>process_message\<close>: log the error and try to send a negative
  acknowledgment for the control id \<open>UNKNOWN\<close>; a failure of that \<open>send\<close> is dropped.
\<close>

definition send_nak :: "env \<Rightarrow> exn \<Rightarrow> world \<Rightarrow> world" where
  "send_nak env e w =
     (let w = logger ERROR (u ''Error processing message: '' @ e) w;
          nak_message = create_nak (clock env (clock_reads w)) (u ''UNKNOWN'') e;
          w = tick w
      in snd (send env nak_message w))"

text \<open>
  The \<open>try\<close> block of \<open>process_message\<close>: the exception it raises, if any, and the
  world it leaves. \<open>save_message\<close> catches its own exceptions, so what can raise is the
  hl7 library, \<open>create_ack\<close> and \<open>send\<close>.
\<close>

definition try_process :: "server \<Rightarrow> env \<Rightarrow> ustring \<times> nat \<Rightarrow> ustring \<Rightarrow> world \<Rightarrow> exn option \<times> world" where
  "try_process srv env client_address message_text w =
     (case hl7_msh env (replace LF CR message_text) of
        Inl e \<Rightarrow> (Some e, w)
      | Inr msh \<Rightarrow>
          (let msg_control_id = (if length msh > 10 then msh ! 10 else u ''UNKNOWN'');
               msg_type = (if length msh > 9 then msh ! 9 else u ''UNKNOWN'');
               sending_app = (if length msh > 3 then msh ! 3 else u ''UNKNOWN'');
               w = logger INFO (u ''Received '' @ msg_type @ u '' message (ID: '' @ msg_control_id @
                                u '') from '' @ sending_app) w;
               w = save_message srv env message_text msg_control_id msg_type client_address w;
               ack = create_ack (clock env (clock_reads w)) msh;
               w = tick w
           in case ack of
                Inl e \<Rightarrow> (Some e, w)
              | Inr ack_message \<Rightarrow>
                  (case send env ack_message w of
                     (Some e, w) \<Rightarrow> (Some e, w)
                   | (None, w) \<Rightarrow> (None, logger INFO (u ''ACK sent for message '' @ msg_control_id) w))))"

text \<open>
  \<open>HL7Server.process_message\<close>: the \<open>try\<close> block and, when it raised, the \<open>except\<close>
  branch. It never raises itself.
\<close>

definition process_message :: "server \<Rightarrow> env \<Rightarrow> ustring \<times> nat \<Rightarrow> ustring \<Rightarrow> world \<Rightarrow> world" where
  "process_message srv env client_address message_text w =
     (case try_process srv env client_address message_text w of
        (None, w) \<Rightarrow> w
      | (Some e, w) \<Rightarrow> send_nak env e w)"

text \<open>
  Names used to state what \<open>process_message\<close> does: \<open>header_field msh i\<close> is
  \<open>str(msh[i]) if len(msh) > i else "UNKNOWN"\<close>, and \<open>saved\<close> is the world once the
  message has been logged as received and \<open>save_message\<close> has returned.
\<close>

definition header_field :: "ustring list \<Rightarrow> nat \<Rightarrow> ustring" where
  "header_field msh i = (if length msh > i then msh ! i else u ''UNKNOWN'')"

definition saved :: "server \<Rightarrow> env \<Rightarrow> ustring \<times> nat \<Rightarrow> ustring \<Rightarrow> ustring list \<Rightarrow> world \<Rightarrow> world" where
  "saved srv env client_address message_text msh w =
     save_message srv env message_text (header_field msh 10) (header_field msh 9) client_address
       (logger INFO (u ''Received '' @ header_field msh 9 @ u '' message (ID: '' @ header_field msh 10 @
                     u '') from '' @ header_field msh 3) w)"

text \<open>
  The frame splitter is the inner \<open>while\<close> loop of \<open>handle_client\<close>. \<open>end_pos_of\<close> is its
  search for the message boundary: the first 0x1C of the buffer and, only when the buffer
  holds no 0x1C, the first carriage return.
\<close>

definition end_pos_of :: "ustring \<Rightarrow> int" where
  "end_pos_of buffer =
     (let end_pos = find_char buffer FS
      in if end_pos = - 1 then find_char buffer CR else end_pos)"

lemma end_pos_of_ge: "- 1 \<le> end_pos_of buffer"
proof -
  have "- 1 \<le> find_char buffer c" for c
    by (simp add: find_char_def)
  then show ?thesis by (simp add: end_pos_of_def Let_def)
qed

lemma drop_end_pos_shorter:
  assumes "FS \<in> set buffer \<or> CR \<in> set buffer" and "end_pos_of buffer \<noteq> - 1"
  shows "length buffer - nat (end_pos_of buffer + 1) < length buffer"
proof -
  from assms(1) have "0 < length buffer" by auto
  moreover from assms(2) end_pos_of_ge [of buffer] have "0 < nat (end_pos_of buffer + 1)" by linarith
  ultimately show ?thesis by linarith
qed

text \<open>
  The loop itself, over the buffer and the state \<open>w\<close> that processing a message changes;
  it returns the rest of the buffer. \<open>process\<close> is what is done with each complete
  message (\<open>process_message\<close> in the server).
\<close>

function frame_loop :: "(ustring \<Rightarrow> 'w \<Rightarrow> 'w) \<Rightarrow> ustring \<Rightarrow> 'w \<Rightarrow> ustring \<times> 'w" where
  "frame_loop process buffer w =
     (if FS \<in> set buffer \<or> CR \<in> set buffer then
        (if end_pos_of buffer = - 1 then (buffer, w)
         else
           (let message = strip (take (nat (end_pos_of buffer)) buffer);
                buffer' = drop (nat (end_pos_of buffer + 1)) buffer
            in frame_loop process buffer' (if message \<noteq> [] then process message w else w)))
      else (buffer, w))"
  by pat_completeness auto
termination
  by (relation "measure (\<lambda>(process, buffer, w). length buffer)") (auto simp: drop_end_pos_shorter)

declare frame_loop.simps [simp del]

text \<open>
  What \<open>recv\<close> returns on each call: a chunk of bytes, or an exception. When the list is
  used up the peer has closed the stream and \<open>recv\<close> returns the empty chunk.
\<close>

datatype recv_result = Data "byte list" | RecvError exn

text \<open>
  The outer loop of \<open>handle_client\<close>, with the \<open>recv\<close> results still to come. It returns
  the results it never read, the exception that ended it (if one did) and the state.
\<close>

fun receive_loop ::
  "(ustring \<Rightarrow> 'w \<Rightarrow> 'w) \<Rightarrow> recv_result list \<Rightarrow> ustring \<Rightarrow> 'w \<Rightarrow> recv_result list \<times> exn option \<times> 'w" where
  "receive_loop process [] buffer w = ([], None, w)"
| "receive_loop process (RecvError e # rest) buffer w = (rest, Some e, w)"
| "receive_loop process (Data chunk # rest) buffer w =
     (let data = decode_ignore chunk
      in if data = [] then (rest, None, w)
         else (case frame_loop process (buffer @ data) w of
                 (buffer', w') \<Rightarrow> receive_loop process rest buffer' w'))"

text \<open>\<open>repr\<close> of the client address, a pair of a host text without quotes and a port.\<close>

definition repr_address :: "ustring \<times> nat \<Rightarrow> ustring" where
  "repr_address a = [0x28, 0x27] @ fst a @ [0x27] @ u '', '' @ str_nat (snd a) @ u '')''"

text \<open>
  \<open>HL7Server.handle_client\<close>: the loop runs while the server is running (the flag is read
  once here: a \<open>stop()\<close> from another thread during the connection is not modelled); an
  exception of \<open>recv\<close> is logged; the socket is closed in every case.
\<close>

definition handle_client ::
  "server \<Rightarrow> env \<Rightarrow> ustring \<times> nat \<Rightarrow> recv_result list \<Rightarrow> world \<Rightarrow> recv_result list \<times> world" where
  "handle_client srv env client_address incoming w =
     (let (unread, w) =
            (if running srv then
               (case receive_loop (process_message srv env client_address) incoming [] w of
                  (unread, None, w) \<Rightarrow> (unread, w)
                | (unread, Some e, w) \<Rightarrow>
                    (unread, logger ERROR (u ''Error handling client '' @ repr_address client_address @
                                           u '': '' @ e) w))
             else (incoming, w))
      in (unread, logger INFO (u ''Connection closed for '' @ repr_address client_address) w))"

text \<open>
  \<open>collect\<close> records the message texts the frame splitter yields, in order, in place of
  processing them.
\<close>

definition collect :: "ustring \<Rightarrow> ustring list \<Rightarrow> ustring list" where
  "collect message yielded = yielded @ [message]"

text \<open>
  A byte stream of messages: \<open>framed tb ms\<close> is each message followed by the terminator
  byte \<open>tb\<close>. A message is \<open>well_formed\<close> for the splitter when it is not empty, is
  ASCII, holds neither terminator and neither starts nor ends with whitespace.
  \<open>only_term t s\<close> says that \<open>t\<close> is the only terminator occurring in the text \<open>s\<close>.
\<close>

definition framed :: "byte \<Rightarrow> byte list list \<Rightarrow> byte list" where
  "framed tb ms = concat (map (\<lambda>m. m @ [tb]) ms)"

definition well_formed :: "byte list \<Rightarrow> bool" where
  "well_formed m \<longleftrightarrow>
     m \<noteq> [] \<and> list_all (\<lambda>b. b < 0x80 \<and> b \<noteq> 0x1C \<and> b \<noteq> 0x0D) m \<and>
     \<not> is_space (unat (hd m)) \<and> \<not> is_space (unat (last m))"

definition only_term :: "nat \<Rightarrow> ustring \<Rightarrow> bool" where
  "only_term t s \<longleftrightarrow> (t = FS \<or> t = CR) \<and> list_all (\<lambda>c. c = t \<or> (c \<noteq> FS \<and> c \<noteq> CR)) s"

section \<open>Concrete inputs used to exercise the theorems\<close>

definition example_now :: datetime where
  "example_now = \<lparr>year = 2024, month = 1, day = 1, hour = 12, minute = 0, second = 0, microsecond = 0\<rparr>"

text \<open>
  A message as a device sends it, its bytes on the wire, its MSH segment as the hl7
  library returns it, and a stand-in for the library that knows this one message and
  rejects every other text.
\<close>

definition example_message :: ustring where
  "example_message = u ''MSH|^~'' @ [BACKSLASH] @ u ''&|DEV||HOSP||20240101120000||ORU^W01|CTRL1|P|2.3.1''"

definition example_bytes :: "byte list" where
  "example_bytes = map of_nat example_message"

definition example_msh :: "ustring list" where
  "example_msh = [u ''MSH'', u ''|'', u ''^~'' @ [BACKSLASH] @ u ''&'', u ''DEV'', [], u ''HOSP'', [],
                  u ''20240101120000'', [], u ''ORU^W01'', u ''CTRL1'', u ''P'', u ''2.3.1'']"

definition example_parse :: "ustring \<Rightarrow> exn + ustring list" where
  "example_parse t = (if t = example_message then Inr example_msh else Inl (u ''not an HL7 message''))"

text \<open>
  An environment in which nothing fails and the library is the stand-in, one in which \<open>b.hl7\<close> cannot be removed, and
  a message directory of four messages and one other file.
\<close>

definition quiet_env :: env where
  "quiet_env =
     \<lparr>hl7_msh = example_parse, clock = (\<lambda>n. example_now), fs_time = (\<lambda>n. 100 + int n),
      glob_fault = None, stat_fault = (\<lambda>p. None), unlink_fault = (\<lambda>p. None),
      write_fault = (\<lambda>p. None), send_fault = (\<lambda>n. None)\<rparr>"

definition example_files :: "entry list" where
  "example_files =
     [\<lparr>fname = u ''a.hl7'', mtime = 30, body = []\<rparr>,
      \<lparr>fname = u ''b.hl7'', mtime = 10, body = []\<rparr>,
      \<lparr>fname = u ''notes.txt'', mtime = 5, body = []\<rparr>,
      \<lparr>fname = u ''c.hl7'', mtime = 20, body = []\<rparr>,
      \<lparr>fname = u ''d.hl7'', mtime = 40, body = []\<rparr>]"

definition world_of :: "entry list \<Rightarrow> world" where
  "world_of fs = \<lparr>files = fs, logged = [], sent = [], sends = 0, clock_reads = 0\<rparr>"

definition locked_env :: env where
  "locked_env =
     quiet_env\<lparr>unlink_fault := (\<lambda>p. if p = u ''b.hl7'' then Some (u ''Permission denied'') else None)\<rparr>"

text \<open>The address the example message comes from, and two small directories.\<close>

definition example_address :: "ustring \<times> nat" where
  "example_address = (u ''10.0.0.5'', 40000)"

definition one_file :: "entry list" where
  "one_file = [\<lparr>fname = u ''a.hl7'', mtime = 30, body = []\<rparr>]"

definition two_files :: "entry list" where
  "two_files = [\<lparr>fname = u ''a.hl7'', mtime = 30, body = []\<rparr>, \<lparr>fname = u ''b.hl7'', mtime = 10, body = []\<rparr>]"

text \<open>
  A server of capacity 1000, the acknowledgment of the example message, the negative
  acknowledgment for an error text at the example time, and three environments: the disk
  is full, the first \<open>send\<close> fails, the hl7 library rejects every message.
\<close>

definition example_server :: server where
  "example_server = \<lparr>max_files = 1000, running = True\<rparr>"

definition example_ack :: ustring where
  "example_ack =
     u ''MSH|^~'' @ [BACKSLASH] @ u ''&|HL7_SERVER||DEV||20240101120000||ACK|CTRL1_ACK|P|2.3.1'' @ [CR] @
     u ''MSA|AA|CTRL1|Message accepted'' @ [CR, FS]"

definition unknown_nak :: "ustring \<Rightarrow> ustring" where
  "unknown_nak e =
     u ''MSH|^~'' @ [BACKSLASH] @ u ''&|HL7_SERVER||||20240101120000||ACK|UNKNOWN_NAK|P|2.3.1'' @ [CR] @
     u ''MSA|AE|UNKNOWN|'' @ e @ [CR, FS]"

definition disk_full_env :: env where
  "disk_full_env =
     quiet_env\<lparr>write_fault := (\<lambda>p. Some (OpenFails (u ''[Errno 28] No space left on device'')))\<rparr>"

definition ack_lost_env :: env where
  "ack_lost_env =
     quiet_env\<lparr>send_fault := (\<lambda>k. if k = 0 then Some (u ''[Errno 32] Broken pipe'') else None)\<rparr>"


text \<open>
  Two more environments: one in which the modification time of \<open>b.hl7\<close> cannot be read
  (\<open>stat\<close> raises, as for a dangling link), and one in which the message directory
  cannot be listed.
\<close>

definition stale_env :: env where
  "stale_env =
     quiet_env\<lparr>stat_fault := (\<lambda>p. if p = u ''b.hl7'' then Some (u ''[Errno 2] No such file or directory'') else None)\<rparr>"


text \<open>
  A second segment for the example message, as text and as bytes: the example message,
  a carriage return and this segment form a message of two segments.
\<close>

definition example_pid :: ustring where
  "example_pid = u ''PID|1||12345''"

definition example_pid_bytes :: "byte list" where
  "example_pid_bytes = map of_nat example_pid"

section \<open>Facts about text and the builder\<close>

lemma split_on_not_Nil: "split_on sep s \<noteq> []"
  by (induction s) (auto split: list.splits)

lemma split_on_none: "sep \<notin> set a \<Longrightarrow> split_on sep a = [a]"
  by (induction a) auto

lemma split_on_append: "sep \<notin> set a \<Longrightarrow> split_on sep (a @ sep # rest) = a # split_on sep rest"
  by (induction a) auto

lemma digit_range: "48 \<le> digit d \<and> digit d \<le> 57"
proof -
  have "d mod 10 < 10" by simp
  then show ?thesis unfolding digit_def by linarith
qed

lemma zpad_digits: "c \<in> set (zpad k n) \<Longrightarrow> 48 \<le> c \<and> c \<le> 57"
  by (induction k arbitrary: n) (auto simp: digit_range)

lemma length_zpad: "length (zpad k n) = k"
  by (induction k arbitrary: n) auto

lemma strftime_compact_digits: "c \<in> set (strftime_compact t) \<Longrightarrow> 48 \<le> c \<and> c \<le> 57"
  unfolding strftime_compact_def by (auto dest: zpad_digits)

lemma strftime_compact_no_CR: "CR \<notin> set (strftime_compact t)"
  using strftime_compact_digits [of CR t] by auto

lemma strftime_compact_no_BAR: "BAR \<notin> set (strftime_compact t)"
  using strftime_compact_digits [of BAR t] by auto

lemma length_strftime_compact: "length (strftime_compact t) = 14"
  by (simp add: strftime_compact_def length_zpad)

lemma split_on_join:
  "ps \<noteq> [] \<Longrightarrow> \<forall>p \<in> set ps. sep \<notin> set p \<Longrightarrow> split_on sep (join sep ps) = ps"
proof (induction sep ps rule: join.induct)
  case (1 sep) then show ?case by simp
next
  case (2 sep p) then show ?case by (simp add: split_on_none)
next
  case (3 sep p q ps)
  then show ?case by (simp add: split_on_append)
qed

lemma zpad_2: "zpad 2 n = [digit (n div 10), digit n]"
  by (simp add: numeral_2_eq_2)

lemma zpad_4: "zpad 4 n = [digit (n div 1000), digit (n div 100), digit (n div 10), digit n]"
proof -
  have "zpad (Suc (Suc (Suc (Suc 0)))) n =
      [digit (n div 1000), digit (n div 100), digit (n div 10), digit n]"
    by (simp add: div_mult2_eq [symmetric])
  moreover have "(4::nat) = Suc (Suc (Suc (Suc 0)))" by simp
  ultimately show ?thesis by metis
qed

lemma zpad_6: "zpad 6 n = [digit (n div 100000), digit (n div 10000), digit (n div 1000), digit (n div 100), digit (n div 10), digit n]"
proof -
  have "zpad (Suc (Suc (Suc (Suc (Suc (Suc 0)))))) n =
      [digit (n div 100000), digit (n div 10000), digit (n div 1000), digit (n div 100),
       digit (n div 10), digit n]"
    by (simp add: div_mult2_eq [symmetric])
  moreover have "(6::nat) = Suc (Suc (Suc (Suc (Suc (Suc 0)))))" by simp
  ultimately show ?thesis by metis
qed

lemma strftime_example: "strftime_compact example_now = u ''20240101120000''"
  by (simp add: strftime_compact_def example_now_def u_def digit_def zpad_2 zpad_4)

lemma length_split_on: "length (split_on sep s) = Suc (count_list s sep)"
  by (induction s) (auto split: list.split simp: split_on_not_Nil)

lemma count_list_strftime_compact: "count_list (strftime_compact t) CR = 0" "count_list (strftime_compact t) BAR = 0"
  by (simp_all add: count_list_0_iff strftime_compact_no_CR strftime_compact_no_BAR)

section \<open>Acknowledgment builder: the replies\<close>

text \<open>
  Claim C7, as the code has it. For every control id and every error text, \<open>create_nak\<close>
  returns the header segment, a carriage return, the segment \<open>MSA|AE|\<close> followed by the
  control id, a bar and the first 100 characters of the error text, a carriage return and
  the hard terminator 0x1C. An error text of more than 100 characters is cut to exactly
  100, a shorter one is embedded whole. Both inputs are embedded as they are, without
  escaping. Read back with \<open>split\<close>, the reply has three parts and one more for each
  carriage return embedded (the control id is embedded twice): it is the header segment,
  the MSA segment and the terminator exactly when neither the control id nor the kept
  part of the error text holds a carriage return. The MSA segment has four fields and one
  more for each bar embedded: its fields are \<open>MSA\<close>, \<open>AE\<close>, the control id and the kept
  error text exactly when neither holds a bar. The header's control id field is the
  control id followed by \<open>_NAK\<close> when the control id holds no bar.
\<close>

theorem create_nak_output:
  fixes now control_id error_msg
  defines "hdr \<equiv> u ''MSH|^~'' @ [BACKSLASH] @ u ''&|HL7_SERVER||||'' @ strftime_compact now @
                  u ''||ACK|'' @ control_id @ u ''_NAK|P|2.3.1''"
      and "msa \<equiv> u ''MSA|AE|'' @ control_id @ u ''|'' @ take 100 error_msg"
  shows "create_nak now control_id error_msg = hdr @ [CR] @ msa @ [CR] @ [FS] \<and>
         length (take 100 error_msg) \<le> 100 \<and>
         (100 < length error_msg \<longrightarrow> length (take 100 error_msg) = 100 \<and> take 100 error_msg \<noteq> error_msg) \<and>
         (length error_msg \<le> 100 \<longrightarrow> take 100 error_msg = error_msg) \<and>
         length (split_on CR (create_nak now control_id error_msg)) =
            3 + 2 * count_list control_id CR + count_list (take 100 error_msg) CR \<and>
         (split_on CR (create_nak now control_id error_msg) = [hdr, msa, [FS]] \<longleftrightarrow>
            CR \<notin> set control_id \<and> CR \<notin> set (take 100 error_msg)) \<and>
         length (split_on BAR msa) = 4 + count_list control_id BAR + count_list (take 100 error_msg) BAR \<and>
         (split_on BAR msa = [u ''MSA'', u ''AE'', control_id, take 100 error_msg] \<longleftrightarrow>
            BAR \<notin> set control_id \<and> BAR \<notin> set (take 100 error_msg)) \<and>
         (BAR \<notin> set control_id \<longrightarrow> split_on BAR hdr ! 9 = control_id @ u ''_NAK'')"
proof -
  have eq: "create_nak now control_id error_msg = hdr @ [CR] @ msa @ [CR] @ [FS]"
    by (simp add: create_nak_def hdr_def msa_def Let_def)
  have trunc: "100 < length error_msg \<longrightarrow> take 100 error_msg \<noteq> error_msg"
  proof (intro impI notI)
    assume a: "100 < length error_msg" and "take 100 error_msg = error_msg"
    then have "length (take 100 error_msg) = length error_msg" by simp
    with a show False by simp
  qed
  have nseg: "length (split_on CR (hdr @ [CR] @ msa @ [CR] @ [FS])) =
      3 + 2 * count_list control_id CR + count_list (take 100 error_msg) CR"
    unfolding length_split_on by (simp add: hdr_def msa_def u_def count_list_strftime_compact)
  have nfld: "length (split_on BAR msa) =
      4 + count_list control_id BAR + count_list (take 100 error_msg) BAR"
    unfolding length_split_on by (simp add: msa_def u_def)
  have segs: "split_on CR (hdr @ [CR] @ msa @ [CR] @ [FS]) = [hdr, msa, [FS]]"
    if "CR \<notin> set control_id" "CR \<notin> set (take 100 error_msg)"
  proof -
    have h: "CR \<notin> set hdr" using that by (auto simp: hdr_def u_def strftime_compact_no_CR)
    have m: "CR \<notin> set msa" using that by (auto simp: msa_def u_def)
    have "hdr @ [CR] @ msa @ [CR] @ [FS] = join CR [hdr, msa, [FS]]" by simp
    moreover have "split_on CR (join CR [hdr, msa, [FS]]) = [hdr, msa, [FS]]"
      by (rule split_on_join) (use h m in simp_all)
    ultimately show ?thesis by simp
  qed
  have segs_only: "CR \<notin> set control_id \<and> CR \<notin> set (take 100 error_msg)"
    if "split_on CR (hdr @ [CR] @ msa @ [CR] @ [FS]) = [hdr, msa, [FS]]"
  proof -
    from that have "length (split_on CR (hdr @ [CR] @ msa @ [CR] @ [FS])) = 3" by simp
    with nseg have "count_list control_id CR = 0 \<and> count_list (take 100 error_msg) CR = 0" by simp
    then show ?thesis by (simp add: count_list_0_iff)
  qed
  have flds: "split_on BAR msa = [u ''MSA'', u ''AE'', control_id, take 100 error_msg]"
    if "BAR \<notin> set control_id" "BAR \<notin> set (take 100 error_msg)"
  proof -
    have "msa = join BAR [u ''MSA'', u ''AE'', control_id, take 100 error_msg]"
      by (simp add: msa_def u_def)
    moreover have "split_on BAR (join BAR [u ''MSA'', u ''AE'', control_id, take 100 error_msg]) =
        [u ''MSA'', u ''AE'', control_id, take 100 error_msg]"
      by (rule split_on_join) (use that in \<open>auto simp: u_def\<close>)
    ultimately show ?thesis by simp
  qed
  have flds_only: "BAR \<notin> set control_id \<and> BAR \<notin> set (take 100 error_msg)"
    if "split_on BAR msa = [u ''MSA'', u ''AE'', control_id, take 100 error_msg]"
  proof -
    from that have "length (split_on BAR msa) = 4" by simp
    with nfld have "count_list control_id BAR = 0 \<and> count_list (take 100 error_msg) BAR = 0" by simp
    then show ?thesis by (simp add: count_list_0_iff)
  qed
  have hflds: "split_on BAR hdr ! 9 = control_id @ u ''_NAK''"
    if "BAR \<notin> set control_id"
  proof -
    let ?ps = "[u ''MSH'', u ''^~'' @ [BACKSLASH] @ u ''&'', u ''HL7_SERVER'', [], [], [],
                strftime_compact now, [], u ''ACK'', control_id @ u ''_NAK'', u ''P'', u ''2.3.1'']"
    have "hdr = join BAR ?ps" by (simp add: hdr_def u_def)
    moreover have "split_on BAR (join BAR ?ps) = ?ps"
      by (rule split_on_join) (use that in \<open>auto simp: u_def strftime_compact_no_BAR\<close>)
    ultimately show ?thesis by simp
  qed
  show ?thesis
  proof (intro conjI impI)
    show "create_nak now control_id error_msg = hdr @ [CR] @ msa @ [CR] @ [FS]" by (rule eq)
    show "length (take 100 error_msg) \<le> 100" by simp
    show "length (take 100 error_msg) = 100" if "100 < length error_msg" using that by simp
    show "take 100 error_msg \<noteq> error_msg" if "100 < length error_msg" using that trunc by blast
    show "take 100 error_msg = error_msg" if "length error_msg \<le> 100" using that by simp
    show "length (split_on CR (create_nak now control_id error_msg)) =
            3 + 2 * count_list control_id CR + count_list (take 100 error_msg) CR"
      unfolding eq by (rule nseg)
    show "split_on CR (create_nak now control_id error_msg) = [hdr, msa, [FS]] \<longleftrightarrow>
            CR \<notin> set control_id \<and> CR \<notin> set (take 100 error_msg)"
      unfolding eq using segs segs_only by blast
    show "length (split_on BAR msa) = 4 + count_list control_id BAR + count_list (take 100 error_msg) BAR"
      by (rule nfld)
    show "split_on BAR msa = [u ''MSA'', u ''AE'', control_id, take 100 error_msg] \<longleftrightarrow>
            BAR \<notin> set control_id \<and> BAR \<notin> set (take 100 error_msg)"
      using flds flds_only by blast
    show "split_on BAR hdr ! 9 = control_id @ u ''_NAK''" if "BAR \<notin> set control_id"
      using that by (rule hflds)
  qed
qed

text \<open>
  For every control id and every error text the reply is not one of two segments: the
  error text \<open>a CR b\<close> gives a reply of three segments, the error text \<open>x|y\<close> an MSA
  segment of five fields, and the control id \<open>A CR B\<close> cuts both segments in two.
\<close>

theorem create_nak_output_counterexample:
  "split_on CR (create_nak example_now (u ''ABC123'') (u ''a'' @ [CR] @ u ''b'')) =
     [u ''MSH|^~'' @ [BACKSLASH] @ u ''&|HL7_SERVER||||20240101120000||ACK|ABC123_NAK|P|2.3.1'',
      u ''MSA|AE|ABC123|a'', u ''b'', [FS]] \<and>
   split_on BAR (split_on CR (create_nak example_now (u ''ABC123'') (u ''x|y'')) ! 1) =
     [u ''MSA'', u ''AE'', u ''ABC123'', u ''x'', u ''y''] \<and>
   split_on CR (create_nak example_now (u ''A'' @ [CR] @ u ''B'') (u ''boom'')) =
     [u ''MSH|^~'' @ [BACKSLASH] @ u ''&|HL7_SERVER||||20240101120000||ACK|A'', u ''B_NAK|P|2.3.1'',
      u ''MSA|AE|A'', u ''B|boom'', [FS]]"
  by (simp add: create_nak_def strftime_example Let_def u_def)

theorem create_nak_output_witness:
  "split_on CR (create_nak example_now (u ''ABC123'') (u ''boom'')) =
     [u ''MSH|^~'' @ [BACKSLASH] @ u ''&|HL7_SERVER||||20240101120000||ACK|ABC123_NAK|P|2.3.1'',
      u ''MSA|AE|ABC123|boom'', [FS]] \<and>
   split_on BAR (u ''MSA|AE|ABC123|boom'') = [u ''MSA'', u ''AE'', u ''ABC123'', u ''boom''] \<and>
   100 < length (replicate 150 (0x78::nat)) \<and>
   split_on CR (create_nak example_now (u ''ABC123'') (replicate 150 0x78)) ! 1 =
     u ''MSA|AE|ABC123|'' @ replicate 100 0x78 \<and>
   length (split_on CR (create_nak example_now (u ''ABC123'') (u ''a'' @ [CR] @ u ''b''))) = 4"
proof -
  have a: "CR \<notin> set (u ''ABC123'')" "BAR \<notin> set (u ''ABC123'')"
    "CR \<notin> set (take 100 (u ''boom''))" "BAR \<notin> set (take 100 (u ''boom''))" "length (u ''boom'') \<le> 100"
    by (simp_all add: u_def)
  have b: "CR \<notin> set (take 100 (replicate 150 (0x78::nat)))" "100 < length (replicate 150 (0x78::nat))"
    by simp_all
  have s1: "split_on CR (create_nak example_now (u ''ABC123'') (u ''boom'')) =
      [u ''MSH|^~'' @ [BACKSLASH] @ u ''&|HL7_SERVER||||'' @ strftime_compact example_now @
         u ''||ACK|'' @ u ''ABC123'' @ u ''_NAK|P|2.3.1'',
       u ''MSA|AE|'' @ u ''ABC123'' @ u ''|'' @ take 100 (u ''boom''), [FS]]"
    and f1: "split_on BAR (u ''MSA|AE|'' @ u ''ABC123'' @ u ''|'' @ take 100 (u ''boom'')) =
      [u ''MSA'', u ''AE'', u ''ABC123'', take 100 (u ''boom'')]"
    using create_nak_output [of example_now "u ''ABC123''" "u ''boom''"] a by blast+
  have s2: "split_on CR (create_nak example_now (u ''ABC123'') (replicate 150 0x78)) =
      [u ''MSH|^~'' @ [BACKSLASH] @ u ''&|HL7_SERVER||||'' @ strftime_compact example_now @
         u ''||ACK|'' @ u ''ABC123'' @ u ''_NAK|P|2.3.1'',
       u ''MSA|AE|'' @ u ''ABC123'' @ u ''|'' @ take 100 (replicate 150 0x78), [FS]]"
    using create_nak_output [of example_now "u ''ABC123''" "replicate 150 0x78"] a b by blast
  have n3: "length (split_on CR (create_nak example_now (u ''ABC123'') (u ''a'' @ [CR] @ u ''b''))) =
      3 + 2 * count_list (u ''ABC123'') CR + count_list (take 100 (u ''a'' @ [CR] @ u ''b'')) CR"
    using create_nak_output [of example_now "u ''ABC123''" "u ''a'' @ [CR] @ u ''b''"] by blast
  show ?thesis using s1 f1 s2 b(2) n3 by (simp add: u_def strftime_example)
qed



section \<open>Frame splitter\<close>

lemma find_char_in: "c \<in> set s \<Longrightarrow> find_char s c = int (length (takeWhile (\<lambda>x. x \<noteq> c) s))"
  by (simp add: find_char_def)

lemma find_char_notin: "c \<notin> set s \<Longrightarrow> find_char s c = - 1"
  by (simp add: find_char_def)

lemma end_pos_of_FS: "FS \<in> set buffer \<Longrightarrow> end_pos_of buffer = int (length (takeWhile (\<lambda>x. x \<noteq> FS) buffer))"
  by (simp add: end_pos_of_def find_char_def Let_def)

lemma end_pos_of_CR:
  "FS \<notin> set buffer \<Longrightarrow> CR \<in> set buffer \<Longrightarrow> end_pos_of buffer = int (length (takeWhile (\<lambda>x. x \<noteq> CR) buffer))"
  by (simp add: end_pos_of_def find_char_def Let_def)

lemma take_length_takeWhile: "take (length (takeWhile P s)) s = takeWhile P s"
  by (induction s) auto

lemma drop_Suc_length_takeWhile: "drop (Suc (length (takeWhile P s))) s = tl (dropWhile P s)"
  by (induction s) auto

lemma frame_loop_none: "FS \<notin> set buffer \<Longrightarrow> CR \<notin> set buffer \<Longrightarrow> frame_loop process buffer w = (buffer, w)"
  by (simp add: frame_loop.simps)

lemma frame_loop_step:
  assumes "FS \<in> set buffer \<or> CR \<in> set buffer"
    and "end_pos_of buffer = int (length (takeWhile (\<lambda>c. c \<noteq> t) buffer))"
  shows "frame_loop process buffer w =
         frame_loop process (tl (dropWhile (\<lambda>c. c \<noteq> t) buffer))
           (if strip (takeWhile (\<lambda>c. c \<noteq> t) buffer) \<noteq> []
            then process (strip (takeWhile (\<lambda>c. c \<noteq> t) buffer)) w else w)"
proof -
  have a: "nat (end_pos_of buffer) = length (takeWhile (\<lambda>c. c \<noteq> t) buffer)"
    and b: "nat (end_pos_of buffer + 1) = Suc (length (takeWhile (\<lambda>c. c \<noteq> t) buffer))"
    and c: "end_pos_of buffer \<noteq> - 1"
    using assms(2) by simp_all
  show ?thesis
    by (subst frame_loop.simps)
       (simp only: assms(1) a b c if_True if_False Let_def take_length_takeWhile drop_Suc_length_takeWhile)
qed

text \<open>
  Claim C2, as the code has it. For every buffer that holds a terminator the frame
  splitter cuts at the first hard terminator 0x1C when the buffer holds one, wherever a
  carriage return may stand, and at the first carriage return only when the buffer holds
  no 0x1C. The text before the boundary, stripped, is the message (processed when it is
  not empty) and the loop goes on with the text after the boundary.
\<close>

theorem frame_boundary:
  fixes buffer :: ustring
  defines "t \<equiv> (if FS \<in> set buffer then FS else CR)"
  assumes has: "FS \<in> set buffer \<or> CR \<in> set buffer"
  shows "end_pos_of buffer = int (length (takeWhile (\<lambda>c. c \<noteq> t) buffer)) \<and>
         frame_loop process buffer w =
           frame_loop process (tl (dropWhile (\<lambda>c. c \<noteq> t) buffer))
             (if strip (takeWhile (\<lambda>c. c \<noteq> t) buffer) \<noteq> []
              then process (strip (takeWhile (\<lambda>c. c \<noteq> t) buffer)) w else w)"
proof -
  have e: "end_pos_of buffer = int (length (takeWhile (\<lambda>c. c \<noteq> t) buffer))"
    using has by (auto simp: t_def end_pos_of_FS end_pos_of_CR)
  show ?thesis by (rule conjI [OF e frame_loop_step [OF has e]])
qed

text \<open>
  The claim as stated fails: in the buffer \<open>A CR B 0x1C\<close> the first terminator is the
  carriage return at index 1, but the boundary is the 0x1C at index 3 and the message is
  \<open>A CR B\<close>.
\<close>

theorem frame_boundary_counterexample:
  "end_pos_of [0x41, CR, 0x42, FS] = 3 \<and>
   int (length (takeWhile (\<lambda>c. c \<noteq> FS \<and> c \<noteq> CR) [0x41, CR, 0x42, FS])) = 1 \<and>
   frame_loop collect [0x41, CR, 0x42, FS] [] = ([], [[0x41, CR, 0x42]])"
  by (simp add: end_pos_of_def find_char_def frame_loop.simps strip_def is_space_def collect_def)

theorem frame_boundary_witness:
  "frame_loop collect [0x41, CR, 0x42, FS, 0x43] [] = frame_loop collect [0x43] [[0x41, CR, 0x42]] \<and>
   end_pos_of [0x41, CR, 0x42, FS, 0x43] = 3 \<and>
   frame_loop collect [0x41, CR, 0x42] [] = frame_loop collect [0x42] [[0x41]] \<and>
   end_pos_of [0x41, CR, 0x42] = 1"
proof -
  have a: "FS \<in> set [0x41, CR, 0x42, FS, 0x43] \<or> CR \<in> set [0x41, CR, 0x42, FS, 0x43]"
    and b: "FS \<in> set [0x41, CR, 0x42] \<or> CR \<in> set [0x41, CR, 0x42]"
    by simp_all
  show ?thesis
    using frame_boundary [OF a, of collect "[]"] frame_boundary [OF b, of collect "[]"]
    by (simp add: strip_def is_space_def collect_def)
qed

section \<open>Frame splitter: completeness\<close>

lemma only_term_append: "only_term t (a @ b) \<longleftrightarrow> only_term t a \<and> only_term t b"
  by (auto simp: only_term_def)

lemma only_term_subset: "only_term t a \<Longrightarrow> set b \<subseteq> set a \<Longrightarrow> only_term t b"
  by (auto simp: only_term_def list_all_iff)

lemma end_pos_of_only:
  assumes "only_term t s" "t \<in> set s"
  shows "end_pos_of s = int (length (takeWhile (\<lambda>c. c \<noteq> t) s))"
proof (cases "t = FS")
  case True
  with assms(2) show ?thesis by (simp add: end_pos_of_FS)
next
  case False
  with assms(1) have t: "t = CR" and "FS \<notin> set s"
    by (auto simp: only_term_def list_all_iff)
  with assms(2) show ?thesis by (simp add: end_pos_of_CR)
qed

lemma frame_loop_only_none:
  assumes "only_term t s" "t \<notin> set s"
  shows "frame_loop process s w = (s, w)"
proof -
  from assms have "FS \<notin> set s" "CR \<notin> set s"
    by (auto simp: only_term_def list_all_iff)
  then show ?thesis by (rule frame_loop_none)
qed

lemma frame_loop_cons:
  assumes "only_term t (m @ t # rest)" "t \<notin> set m"
  shows "frame_loop process (m @ t # rest) w =
         frame_loop process rest (if strip m \<noteq> [] then process (strip m) w else w)"
proof -
  have tw: "takeWhile (\<lambda>c. c \<noteq> t) (m @ t # rest) = m"
    using assms(2) by (induction m) auto
  have dw: "dropWhile (\<lambda>c. c \<noteq> t) (m @ t # rest) = t # rest"
    using assms(2) by (induction m) auto
  have has: "FS \<in> set (m @ t # rest) \<or> CR \<in> set (m @ t # rest)"
    using assms(1) by (auto simp: only_term_def)
  have e: "end_pos_of (m @ t # rest) = int (length (takeWhile (\<lambda>c. c \<noteq> t) (m @ t # rest)))"
    by (rule end_pos_of_only [OF assms(1)]) simp
  show ?thesis using frame_loop_step [OF has e, of process w] by (simp only: tw dw list.sel)
qed

lemma frame_loop_rest_subset: "set (fst (frame_loop process b w)) \<subseteq> set b"
proof (induction process b w rule: frame_loop.induct)
  case (1 process buffer w)
  show ?case
  proof (cases "(FS \<in> set buffer \<or> CR \<in> set buffer) \<and> end_pos_of buffer \<noteq> - 1")
    case True
    let ?b = "drop (nat (end_pos_of buffer + 1)) buffer"
    let ?m = "strip (take (nat (end_pos_of buffer)) buffer)"
    from True 1 [OF _ _ refl refl]
    have "set (fst (frame_loop process ?b (if ?m \<noteq> [] then process ?m w else w))) \<subseteq> set ?b"
      by blast
    moreover have "set ?b \<subseteq> set buffer" by (rule set_drop_subset)
    moreover from True have "frame_loop process buffer w =
        frame_loop process ?b (if ?m \<noteq> [] then process ?m w else w)"
      by (subst frame_loop.simps) (simp add: Let_def)
    ultimately show ?thesis by auto
  next
    case False
    then have "frame_loop process buffer w = (buffer, w)"
      by (subst frame_loop.simps) auto
    then show ?thesis by simp
  qed
qed

lemma frame_loop_rest_clean:
  "FS \<notin> set (fst (frame_loop process b w)) \<and> CR \<notin> set (fst (frame_loop process b w))"
proof (induction process b w rule: frame_loop.induct)
  case (1 process buffer w)
  show ?case
  proof (cases "FS \<in> set buffer \<or> CR \<in> set buffer")
    case True
    then have ne: "end_pos_of buffer \<noteq> - 1"
      by (auto simp: end_pos_of_def find_char_def Let_def)
    let ?b = "drop (nat (end_pos_of buffer + 1)) buffer"
    let ?m = "strip (take (nat (end_pos_of buffer)) buffer)"
    from True ne have "frame_loop process buffer w =
        frame_loop process ?b (if ?m \<noteq> [] then process ?m w else w)"
      by (subst frame_loop.simps) (simp add: Let_def)
    with 1 [OF True ne refl refl] show ?thesis by simp
  next
    case False
    then have "frame_loop process buffer w = (buffer, w)"
      by (subst frame_loop.simps) auto
    with False show ?thesis by simp
  qed
qed

lemma frame_loop_append:
  "only_term t (b @ d) \<Longrightarrow>
   frame_loop process (b @ d) w =
     (case frame_loop process b w of (b', w') \<Rightarrow> frame_loop process (b' @ d) w')"
proof (induction "length b" arbitrary: b w rule: less_induct)
  case less
  show ?case
  proof (cases "t \<in> set b")
    case True
    then obtain m rest where b: "b = m @ t # rest" and m: "t \<notin> set m"
      by (meson split_list_first)
    from less.prems b have o1: "only_term t (m @ t # (rest @ d))" by simp
    from less.prems b have o2: "only_term t (m @ t # rest)" by (simp add: only_term_def)
    from less.prems b have o3: "only_term t (rest @ d)" by (simp add: only_term_def)
    let ?w = "if strip m \<noteq> [] then process (strip m) w else w"
    have "frame_loop process (b @ d) w = frame_loop process (rest @ d) ?w"
      using frame_loop_cons [OF o1 m, of process w] b by simp
    also have "\<dots> = (case frame_loop process rest ?w of (b', w') \<Rightarrow> frame_loop process (b' @ d) w')"
      by (rule less.hyps) (use b o3 in simp_all)
    also have "frame_loop process rest ?w = frame_loop process b w"
      using frame_loop_cons [OF o2 m, of process w] b by simp
    finally show ?thesis .
  next
    case False
    from less.prems have "only_term t b" by (simp add: only_term_append)
    with False have "frame_loop process b w = (b, w)" by (rule frame_loop_only_none [rotated])
    then show ?thesis by simp
  qed
qed


lemma decode_ignore_ascii: "list_all (\<lambda>b. b < 0x80) bs \<Longrightarrow> decode_ignore bs = map unat bs"
  by (induction bs) auto

lemma strip_clean:
  assumes "m \<noteq> []" "\<not> is_space (hd m)" "\<not> is_space (last m)"
  shows "strip m = m"
proof -
  from assms(1,2) have a: "dropWhile is_space m = m" by (cases m) auto
  from assms(1,3) have "\<not> is_space (hd (rev m))" by (simp add: hd_rev)
  with assms(1) have "dropWhile is_space (rev m) = rev m" by (cases "rev m") auto
  with a show ?thesis by (simp add: strip_def)
qed

text \<open>The text of a well-formed message: its bytes are ASCII, so each is its own code point.\<close>

lemma well_formed_text:
  assumes "well_formed m"
  shows "decode_ignore m = map unat m" "strip (map unat m) = map unat m" "map unat m \<noteq> []"
    "FS \<notin> set (map unat m)" "CR \<notin> set (map unat m)"
proof -
  from assms have ne: "m \<noteq> []" and all: "list_all (\<lambda>b. b < 0x80 \<and> b \<noteq> 0x1C \<and> b \<noteq> 0x0D) m"
    and h: "\<not> is_space (unat (hd m))" and l: "\<not> is_space (unat (last m))"
    by (simp_all add: well_formed_def)
  from all show "decode_ignore m = map unat m"
    by (intro decode_ignore_ascii) (simp add: list_all_iff)
  from ne show "map unat m \<noteq> []" by simp
  from ne h l show "strip (map unat m) = map unat m"
    by (intro strip_clean) (simp_all add: hd_map last_map)
  have "unat b \<noteq> FS \<and> unat b \<noteq> CR" if "b \<in> set m" for b
  proof -
    from all that have "b \<noteq> 0x1C" "b \<noteq> 0x0D" by (auto simp: list_all_iff)
    then show ?thesis by (simp add: word_unat_eq_iff)
  qed
  then show "FS \<notin> set (map unat m)" "CR \<notin> set (map unat m)" by auto
qed


lemma frame_loop_stream:
  assumes "t = FS \<or> t = CR"
    and "\<forall>m \<in> set ms. m \<noteq> [] \<and> strip m = m \<and> FS \<notin> set m \<and> CR \<notin> set m"
  shows "only_term t (concat (map (\<lambda>m. m @ [t]) ms)) \<and>
         frame_loop process (concat (map (\<lambda>m. m @ [t]) ms)) w =
           ([], foldl (\<lambda>w m. process m w) w ms)"
  using assms(2)
proof (induction ms arbitrary: w)
  case Nil
  show ?case using assms(1) by (simp add: frame_loop_none only_term_def)
next
  case (Cons m ms)
  let ?rest = "concat (map (\<lambda>m. m @ [t]) ms)"
  from Cons.prems have m: "m \<noteq> []" "strip m = m" "FS \<notin> set m" "CR \<notin> set m" by simp_all
  from Cons.prems have rest: "\<forall>m \<in> set ms. m \<noteq> [] \<and> strip m = m \<and> FS \<notin> set m \<and> CR \<notin> set m"
    by simp
  note ih = Cons.IH [OF rest]
  from m assms(1) have tm: "t \<notin> set m" by auto
  from ih [of w] m assms(1) have o: "only_term t (m @ t # ?rest)"
    by (auto simp: only_term_def list_all_iff)
  have "frame_loop process (m @ t # ?rest) w = frame_loop process ?rest (process m w)"
    using frame_loop_cons [OF o tm, of process w] m by simp
  with ih [of "process m w"] o show ?case by simp
qed



lemma receive_loop_data:
  assumes "decode_ignore c \<noteq> []"
  shows "receive_loop process (Data c # rest) buffer w =
         receive_loop process rest (fst (frame_loop process (buffer @ decode_ignore c) w))
           (snd (frame_loop process (buffer @ decode_ignore c) w))"
  using assms by (simp add: Let_def case_prod_beta)

lemma frame_loop_append_proj:
  assumes "only_term t (b @ d)"
  shows "frame_loop process (b @ d) w =
         frame_loop process (fst (frame_loop process b w) @ d) (snd (frame_loop process b w))"
  by (simp add: frame_loop_append [OF assms] case_prod_beta)

lemma receive_loop_ascii:
  assumes "\<forall>c \<in> set chunks. c \<noteq> [] \<and> list_all (\<lambda>b. b < 0x80) c"
    and "only_term t (buffer @ map unat (concat chunks))"
    and "FS \<notin> set buffer" "CR \<notin> set buffer"
  shows "receive_loop process (map Data chunks) buffer w =
         ([], None, snd (frame_loop process (buffer @ map unat (concat chunks)) w))"
  using assms
proof (induction chunks arbitrary: buffer w)
  case Nil
  show ?case by (simp add: frame_loop_none [OF Nil.prems(3) Nil.prems(4)])
next
  case (Cons c cs)
  let ?b1 = "fst (frame_loop process (buffer @ map unat c) w)"
  let ?w1 = "snd (frame_loop process (buffer @ map unat c) w)"
  from Cons.prems(1) have c: "c \<noteq> []" and d: "decode_ignore c = map unat c"
    by (simp_all add: decode_ignore_ascii)
  have clean: "FS \<notin> set ?b1" "CR \<notin> set ?b1"
    using frame_loop_rest_clean [of process "buffer @ map unat c" w] by blast+
  have sub: "set ?b1 \<subseteq> set (buffer @ map unat c)"
    by (rule frame_loop_rest_subset)
  have eq: "buffer @ map unat (concat (c # cs)) = (buffer @ map unat c) @ map unat (concat cs)"
    by simp
  from Cons.prems(2) have o: "only_term t ((buffer @ map unat c) @ map unat (concat cs))"
    by (simp only: eq)
  then have oa: "only_term t (buffer @ map unat c)" and ob: "only_term t (map unat (concat cs))"
    by (simp_all only: only_term_append)
  have o1: "only_term t (?b1 @ map unat (concat cs))"
    using only_term_subset [OF oa sub] ob by (simp only: only_term_append)
  from Cons.prems(1) have cs: "\<forall>c \<in> set cs. c \<noteq> [] \<and> list_all (\<lambda>b. b < 0x80) c" by simp
  have ne: "decode_ignore c \<noteq> []" using c d by simp
  have "receive_loop process (map Data (c # cs)) buffer w = receive_loop process (map Data cs) ?b1 ?w1"
    using receive_loop_data [OF ne, of process "map Data cs" buffer w] by (simp only: d list.map)
  also have "\<dots> = ([], None, snd (frame_loop process (?b1 @ map unat (concat cs)) ?w1))"
    by (rule Cons.IH [OF cs o1 clean])
  also have "frame_loop process (?b1 @ map unat (concat cs)) ?w1 =
      frame_loop process ((buffer @ map unat c) @ map unat (concat cs)) w"
    by (rule frame_loop_append_proj [OF o, symmetric])
  finally show ?case by (simp only: eq)
qed


lemma receive_loop_framed:
  assumes tb: "tb = 0x1C \<or> tb = 0x0D"
    and wf: "\<forall>m \<in> set ms. well_formed m"
    and chunks: "concat chunks = framed tb ms"
    and nonempty: "\<forall>c \<in> set chunks. c \<noteq> []"
  shows "receive_loop process (map Data chunks) [] w =
         ([], None, foldl (\<lambda>w m. process m w) w (map (map unat) ms))"
proof -
  let ?t = "unat tb"
  let ?ms = "map (map unat) ms"
  from tb have t: "?t = FS \<or> ?t = CR" by auto
  have msg: "\<forall>m \<in> set ?ms. m \<noteq> [] \<and> strip m = m \<and> FS \<notin> set m \<and> CR \<notin> set m"
  proof
    fix m assume "m \<in> set ?ms"
    then obtain bm where "bm \<in> set ms" and m: "m = map unat bm" by auto
    with wf have "well_formed bm" by blast
    from well_formed_text(2-5) [OF this] show "m \<noteq> [] \<and> strip m = m \<and> FS \<notin> set m \<and> CR \<notin> set m"
      unfolding m by blast
  qed
  have stream: "map unat (concat chunks) = concat (map (\<lambda>m. m @ [?t]) ?ms)"
    by (simp add: chunks framed_def map_concat comp_def)
  have "list_all (\<lambda>b. b < 0x80) (framed tb ms)"
    unfolding framed_def using wf tb
    by (induction ms) (auto simp: well_formed_def list_all_iff)
  then have "b < 0x80" if "b \<in> set (concat chunks)" for b
    using that by (simp add: chunks list_all_iff)
  then have ascii: "\<forall>c \<in> set chunks. c \<noteq> [] \<and> list_all (\<lambda>b. b < 0x80) c"
    using nonempty by (auto simp: list_all_iff)
  note st = frame_loop_stream [OF t msg, of process w]
  from st have o: "only_term ?t ([] @ map unat (concat chunks))" by (simp only: stream append_Nil)
  have fl: "frame_loop process (map unat (concat chunks)) w =
      ([], foldl (\<lambda>w m. process m w) w ?ms)"
    by (simp only: stream conjunct2 [OF st])
  have "receive_loop process (map Data chunks) [] w =
        ([], None, snd (frame_loop process ([] @ map unat (concat chunks)) w))"
    by (rule receive_loop_ascii [OF ascii o]) simp_all
  then show ?thesis by (simp only: append_Nil fl snd_conv)
qed

text \<open>
  Where the framing does not depend on the reads. For a byte stream of messages that are
  ASCII, hold neither terminator and neither start nor end with whitespace, each followed
  by the same terminator byte (all 0x1C or all 0x0D), the frame splitter yields exactly
  these message texts, in order, with the terminators removed and the content unchanged,
  however the stream is cut into non-empty reads: each message is processed once, in
  order, the buffer ends empty and every read is consumed.
\<close>

lemma frame_splitter_uniform:
  assumes "tb = 0x1C \<or> tb = 0x0D"
    and "\<forall>m \<in> set ms. well_formed m"
    and "concat chunks = framed tb ms"
    and "\<forall>c \<in> set chunks. c \<noteq> []"
  shows "receive_loop collect (map Data chunks) [] [] = ([], None, map (map unat) ms) \<and>
         receive_loop process (map Data chunks) [] w =
           ([], None, foldl (\<lambda>w m. process m w) w (map (map unat) ms))"
proof -
  have yielded: "foldl (\<lambda>w m. collect m w) acc xs = acc @ xs" for acc xs
    by (induction xs arbitrary: acc) (simp_all add: collect_def)
  have "receive_loop collect (map Data chunks) [] [] =
        ([], None, foldl (\<lambda>w m. collect m w) [] (map (map unat) ms))"
    using assms by (rule receive_loop_framed)
  then have "receive_loop collect (map Data chunks) [] [] = ([], None, map (map unat) ms)"
    by (simp only: yielded append_Nil)
  moreover have "receive_loop process (map Data chunks) [] w =
        ([], None, foldl (\<lambda>w m. process m w) w (map (map unat) ms))"
    using assms by (rule receive_loop_framed)
  ultimately show ?thesis by (rule conjI)
qed

lemma frame_splitter_uniform_example:
  "well_formed [0x41, 0x42] \<and> well_formed [0x43] \<and>
   receive_loop collect [Data [0x41], Data [0x42, 0x1C, 0x43], Data [0x1C]] [] [] =
     ([], None, [[0x41, 0x42], [0x43]]) \<and>
   receive_loop collect [Data [0x41, 0x42, 0x0D, 0x43, 0x0D]] [] [] =
     ([], None, [[0x41, 0x42], [0x43]])"
proof -
  have wf: "\<forall>m \<in> set [[0x41, 0x42], [0x43 :: byte]]. well_formed m"
    by (simp add: well_formed_def is_space_def)
  have c1: "concat [[0x41], [0x42, 0x1C, 0x43], [0x1C]] = framed 0x1C [[0x41, 0x42], [0x43 :: byte]]"
    and c2: "concat [[0x41, 0x42, 0x0D, 0x43, 0x0D]] = framed 0x0D [[0x41, 0x42], [0x43 :: byte]]"
    by (simp_all add: framed_def)
  have n1: "\<forall>c \<in> set [[0x41], [0x42, 0x1C, 0x43], [0x1C :: byte]]. c \<noteq> []"
    and n2: "\<forall>c \<in> set [[0x41, 0x42, 0x0D, 0x43, 0x0D :: byte]]. c \<noteq> []"
    by simp_all
  have t1: "(0x1C :: byte) = 0x1C \<or> (0x1C :: byte) = 0x0D" and t2: "(0x0D :: byte) = 0x1C \<or> (0x0D :: byte) = 0x0D"
    by simp_all
  show ?thesis
    using conjunct1 [OF frame_splitter_uniform [OF t1 wf c1 n1]]
      conjunct1 [OF frame_splitter_uniform [OF t2 wf c2 n2]] wf
    by simp
qed

lemma decode_two_segments:
  "decode_ignore (example_bytes @ 0x0D # example_pid_bytes @ [0x1C]) =
     example_message @ CR # example_pid @ [FS]"
  "decode_ignore (example_bytes @ [0x0D]) = example_message @ [CR]"
  "decode_ignore (example_pid_bytes @ [0x1C]) = example_pid @ [FS]"
  by (simp_all add: example_bytes_def example_message_def example_pid_bytes_def example_pid_def u_def)

lemma frame_two_segments:
  "frame_loop collect (example_message @ CR # example_pid @ [FS]) [] =
     ([], [example_message @ CR # example_pid])"
  "frame_loop collect (example_message @ [CR]) [] = ([], [example_message])"
  "frame_loop collect (example_pid @ [FS]) [example_message] = ([], [example_message, example_pid])"
  by (simp_all add: frame_loop.simps end_pos_of_def find_char_def strip_def is_space_def collect_def
        Let_def example_message_def example_pid_def u_def)

text \<open>
  Claim C6 at the inputs where the code departs from it. The splitter looks for 0x1C in
  what has been received so far and takes a carriage return for the boundary when it
  finds none, and each read is decoded on its own. So the messages it yields depend on
  where the reads end. The message \<open>A CR B\<close> followed by 0x1C is yielded whole when the
  stream arrives in one read, and as the two messages \<open>A\<close> and \<open>B\<close> when a read ends
  after the carriage return; the same holds of the example message with a second segment,
  which one read yields as one message of two segments and two reads yield as two
  messages of one segment each. The message \<open>A 0xC3 0xA9 B\<close> (the middle character is
  e with acute accent) is yielded unchanged in one read, and without that character when
  a read ends inside it.
\<close>

theorem frame_splitter_read_boundaries:
  "receive_loop collect [Data [0x41, 0x0D, 0x42, 0x1C]] [] [] = ([], None, [[0x41, CR, 0x42]]) \<and>
   receive_loop collect [Data [0x41, 0x0D], Data [0x42, 0x1C]] [] [] = ([], None, [[0x41], [0x42]]) \<and>
   receive_loop collect [Data (example_bytes @ [0x0D] @ example_pid_bytes @ [0x1C])] [] [] =
     ([], None, [example_message @ [CR] @ example_pid]) \<and>
   receive_loop collect [Data (example_bytes @ [0x0D]), Data (example_pid_bytes @ [0x1C])] [] [] =
     ([], None, [example_message, example_pid]) \<and>
   receive_loop collect [Data [0x41, 0xC3, 0xA9, 0x42, 0x1C]] [] [] = ([], None, [[0x41, 0xE9, 0x42]]) \<and>
   receive_loop collect [Data [0x41, 0xC3], Data [0xA9, 0x42, 0x1C]] [] [] = ([], None, [[0x41, 0x42]])"
proof -
  have small:
    "receive_loop collect [Data [0x41, 0x0D, 0x42, 0x1C]] [] [] = ([], None, [[0x41, CR, 0x42]])"
    "receive_loop collect [Data [0x41, 0x0D], Data [0x42, 0x1C]] [] [] = ([], None, [[0x41], [0x42]])"
    "receive_loop collect [Data [0x41, 0xC3, 0xA9, 0x42, 0x1C]] [] [] = ([], None, [[0x41, 0xE9, 0x42]])"
    "receive_loop collect [Data [0x41, 0xC3], Data [0xA9, 0x42, 0x1C]] [] [] = ([], None, [[0x41, 0x42]])"
    by (simp_all add: frame_loop.simps end_pos_of_def find_char_def strip_def is_space_def collect_def
        is_cont_def Let_def)
  have one: "receive_loop collect [Data (example_bytes @ [0x0D] @ example_pid_bytes @ [0x1C])] [] [] =
      ([], None, [example_message @ [CR] @ example_pid])"
    by (simp add: decode_two_segments frame_two_segments Let_def del: append_is_Nil_conv)
  have two: "receive_loop collect [Data (example_bytes @ [0x0D]), Data (example_pid_bytes @ [0x1C])] [] [] =
      ([], None, [example_message, example_pid])"
    by (simp add: decode_two_segments frame_two_segments Let_def del: append_is_Nil_conv)
  show ?thesis using small one two by blast
qed

section \<open>Message store: eviction\<close>

lemma unlink_each_result:
  "unlink_each env ps removed_count w =
     (w\<lparr>files := filter (\<lambda>f. \<not> (fname f \<in> set ps \<and> unlink_fault env (fname f) = None)) (files w),
        logged := logged w @ unlink_warnings env ps\<rparr>,
      removed_count + length (filter (\<lambda>p. unlink_fault env p = None) ps))"
proof (induction ps arbitrary: removed_count w)
  case Nil
  show ?case by (simp add: unlink_warnings_def)
next
  case (Cons p ps)
  show ?case
  proof (cases "unlink_fault env p")
    case None
    have "filter (\<lambda>f. \<not> (fname f \<in> set ps \<and> unlink_fault env (fname f) = None)) (unlink p (files w)) =
          filter (\<lambda>f. \<not> (fname f \<in> set (p # ps) \<and> unlink_fault env (fname f) = None)) (files w)"
      unfolding unlink_def filter_filter using None by (intro filter_cong) auto
    with None show ?thesis by (simp add: Cons.IH unlink_warnings_def)
  next
    case (Some e)
    have "filter (\<lambda>f. \<not> (fname f \<in> set ps \<and> unlink_fault env (fname f) = None)) (files w) =
          filter (\<lambda>f. \<not> (fname f \<in> set (p # ps) \<and> unlink_fault env (fname f) = None)) (files w)"
      using Some by (intro filter_cong) auto
    with Some show ?thesis
      by (simp add: Cons.IH unlink_warnings_def logger_def unlink_warning_def)
  qed
qed


lemma cleanup_files:
  assumes "glob_fault env = None"
  shows "files (cleanup_old_files env w) =
         filter (\<lambda>f. \<not> (fname f \<in> set (victims_of env w) \<and> unlink_fault env (fname f) = None)) (files w)"
proof (cases "0 < length (listed_of env w) div 2")
  case True
  then show ?thesis
    using assms
    by (simp add: cleanup_old_files_def Let_def unlink_each_result listed_of_def [symmetric]
        victims_of_def [symmetric] logger_def)
next
  case False
  then have "victims_of env w = []" by (simp add: victims_of_def)
  with False assms show ?thesis
    by (simp add: cleanup_old_files_def Let_def listed_of_def [symmetric])
qed




lemma listed_mset: "mset (listed_of env w) = mset (stat_all env (files w))"
  by (simp add: listed_of_def)



lemma glob_hl7_filter: "glob_hl7 (filter P fs) = filter P (glob_hl7 fs)"
  by (auto simp: glob_hl7_def intro: filter_cong)

lemma distinct_glob_hl7: "distinct (map fname fs) \<Longrightarrow> distinct (map fname (glob_hl7 fs))"
  by (simp add: glob_hl7_def distinct_map_filter)

lemma length_filter_names:
  assumes "distinct (map fname xs)" "distinct vs" "set vs \<subseteq> fname ` set xs"
  shows "length (filter (\<lambda>f. fname f \<in> set vs) xs) = length vs"
proof -
  let ?ys = "filter (\<lambda>f. fname f \<in> set vs) xs"
  have d: "distinct (map fname ?ys)" using assms(1) by (rule distinct_map_filter)
  have "set (map fname ?ys) = set vs" using assms(3) by auto
  then have "card (set (map fname ?ys)) = card (set vs)" by simp
  with d assms(2) show ?thesis by (simp add: distinct_card del: set_map)
qed

lemma length_filter_not_names:
  assumes "distinct (map fname xs)" "distinct vs" "set vs \<subseteq> fname ` set xs"
  shows "length (filter (\<lambda>f. fname f \<notin> set vs) xs) = length xs - length vs"
  using sum_length_filter_compl [of "\<lambda>f. fname f \<in> set vs" xs] length_filter_names [OF assms]
  by simp

lemma map_snd_stat_all:
  "map snd (stat_all env fs) = map fname (filter (\<lambda>f. stat_fault env (fname f) = None) (glob_hl7 fs))"
  by (simp add: stat_all_def comp_def)

lemma victims_subset: "set (victims_of env w) \<subseteq> fname ` set (glob_hl7 (files w))"
proof -
  have "set (victims_of env w) \<subseteq> set (map snd (listed_of env w))"
    unfolding victims_of_def by (auto dest: in_set_takeD)
  also have "\<dots> = set (map snd (stat_all env (files w)))"
    by (simp add: listed_of_def)
  also have "\<dots> \<subseteq> fname ` set (glob_hl7 (files w))"
    unfolding map_snd_stat_all by auto
  finally show ?thesis .
qed

lemma victims_distinct:
  assumes "distinct (map fname (files w))"
  shows "distinct (victims_of env w)"
proof -
  have "distinct (map snd (stat_all env (files w)))"
    unfolding map_snd_stat_all
    by (intro distinct_map_filter distinct_glob_hl7 assms)
  moreover have "mset (map snd (listed_of env w)) = mset (map snd (stat_all env (files w)))"
    by (simp add: listed_of_def)
  ultimately have "distinct (map snd (listed_of env w))"
    by (metis mset_eq_imp_distinct_iff)
  then show ?thesis
    unfolding victims_of_def take_map [symmetric] by (rule distinct_take)
qed

lemma length_victims: "length (victims_of env w) = length (listed_of env w) div 2"
  by (simp add: victims_of_def)

lemma length_listed_all_stat:
  assumes "\<forall>f \<in> set (glob_hl7 (files w)). stat_fault env (fname f) = None"
  shows "length (listed_of env w) = length (glob_hl7 (files w))"
proof -
  from assms have "filter (\<lambda>f. stat_fault env (fname f) = None) (glob_hl7 (files w)) = glob_hl7 (files w)"
    by (simp add: filter_id_conv)
  then show ?thesis by (simp add: listed_of_def stat_all_def)
qed

lemma cleanup_count:
  assumes g: "glob_fault env = None"
    and ok: "\<forall>p \<in> set (victims_of env w). unlink_fault env p = None"
    and d: "distinct (map fname (files w))"
  shows "count_message_files env (cleanup_old_files env w) =
         count_message_files env w - length (listed_of env w) div 2"
proof -
  have "files (cleanup_old_files env w) = filter (\<lambda>f. fname f \<notin> set (victims_of env w)) (files w)"
    unfolding cleanup_files [OF g] using ok by (intro filter_cong) auto
  then have "length (glob_hl7 (files (cleanup_old_files env w))) =
      length (filter (\<lambda>f. fname f \<notin> set (victims_of env w)) (glob_hl7 (files w)))"
    by (simp add: glob_hl7_filter)
  also have "\<dots> = length (glob_hl7 (files w)) - length (victims_of env w)"
    by (intro length_filter_not_names distinct_glob_hl7 d victims_distinct victims_subset)
  finally show ?thesis using g by (simp add: count_message_files_def length_victims)
qed


lemma is_hl7_prefix: "is_hl7 name = prefix (rev (u ''.hl7'')) (rev name)"
  by (simp add: is_hl7_def suffix_to_prefix)





lemma stale_env_simps [simp]:
  "glob_fault stale_env = None" "unlink_fault stale_env p = None"
  "stat_fault stale_env p = (if p = u ''b.hl7'' then Some (u ''[Errno 2] No such file or directory'') else None)"
  by (simp_all add: stale_env_def quiet_env_def)




section \<open>Message store: capacity\<close>

lemma files_logger [simp]: "files (logger lvl msg w) = files w"
  by (simp add: logger_def)

lemma files_tick [simp]: "files (tick w) = files w"
  by (simp add: tick_def)

lemma count_logger [simp]: "count_message_files env (logger lvl msg w) = count_message_files env w"
  by (simp add: count_message_files_def split: option.splits)

lemma count_tick [simp]: "count_message_files env (tick w) = count_message_files env w"
  by (simp add: count_message_files_def split: option.splits)

lemma listed_logger [simp]: "listed_of env (logger lvl msg w) = listed_of env w"
  by (simp add: listed_of_def)

lemma victims_logger [simp]: "victims_of env (logger lvl msg w) = victims_of env w"
  by (simp add: victims_of_def)

lemma is_hl7_message_filename: "is_hl7 (message_filename timestamp control_id msg_type)"
  unfolding is_hl7_def message_filename_def
  by (metis append.assoc suffixI)

lemma length_glob_put_file_le: "length (glob_hl7 (put_file f fs)) \<le> length (glob_hl7 fs) + 1"
proof -
  have "length (glob_hl7 (map (\<lambda>g. if fname g = fname f then f else g) fs)) = length (glob_hl7 fs)"
    by (induction fs) (auto simp: glob_hl7_def)
  then show ?thesis by (auto simp: put_file_def glob_hl7_def)
qed

lemma length_glob_put_file_new:
  assumes "0x2F \<notin> set (fname f)" "fname f \<notin> set (map fname fs)" "is_hl7 (fname f)"
  shows "length (glob_hl7 (put_file f fs)) = length (glob_hl7 fs) + 1"
  using assms by (simp add: put_file_def glob_hl7_def)

lemma clock_reads_unlink_each: "clock_reads (fst (unlink_each env ps r w)) = clock_reads w"
  by (simp add: unlink_each_result)

lemma clock_reads_cleanup [simp]: "clock_reads (cleanup_old_files env w) = clock_reads w"
  by (auto simp: cleanup_old_files_def Let_def logger_def unlink_each_result split: option.splits)

lemma clock_reads_before_write [simp]: "clock_reads (before_write srv env w) = clock_reads w"
  by (simp add: before_write_def logger_def)

lemma clock_reads_logger [simp]: "clock_reads (logger lvl msg w) = clock_reads w"
  by (simp add: logger_def)

lemma files_save_message:
  fixes srv env w message_text control_id msg_type client_address
  defines "wb \<equiv> before_write srv env w"
      and "timestamp \<equiv> clock env (clock_reads w)"
  defines "filename \<equiv> message_filename timestamp control_id msg_type"
  shows "files (save_message srv env message_text control_id msg_type client_address w) =
         (case write_fault env filename of
            Some (OpenFails e) \<Rightarrow> files wb
          | Some (WriteFails e) \<Rightarrow>
              put_file \<lparr>fname = filename, mtime = fs_time env (clock_reads w), body = []\<rparr> (files wb)
          | None \<Rightarrow>
              put_file \<lparr>fname = filename, mtime = fs_time env (clock_reads w),
                        body = file_text timestamp client_address control_id msg_type message_text\<rparr>
                (files wb))"
proof -
  have "save_message srv env message_text control_id msg_type client_address w =
     (let w1 = tick wb
      in case write_fault env filename of
           Some (OpenFails e) \<Rightarrow> logger ERROR (u ''Failed to save message: '' @ e) w1
         | Some (WriteFails e) \<Rightarrow>
             logger ERROR (u ''Failed to save message: '' @ e)
               (w1\<lparr>files := put_file \<lparr>fname = filename, mtime = fs_time env (clock_reads w), body = []\<rparr> (files w1)\<rparr>)
         | None \<Rightarrow>
             (let w2 = w1\<lparr>files := put_file \<lparr>fname = filename, mtime = fs_time env (clock_reads w),
                        body = file_text timestamp client_address control_id msg_type message_text\<rparr> (files w1)\<rparr>
              in logger INFO (u ''Message saved to '' @ filename @ u '' ('' @ str_nat (count_message_files env w2) @
                              u ''/'' @ str_int (max_files srv) @ u '' files)'') w2))"
    unfolding save_message_def Let_def wb_def before_write_def filename_def timestamp_def
    by (simp cong del: option.case_cong_weak write_fault.case_cong_weak
        cong: option.case_cong write_fault.case_cong)
  then show ?thesis
    by (simp add: Let_def split: option.splits write_fault.splits)
qed


lemma count_before_write:
  assumes g: "glob_fault env = None"
    and d: "distinct (map fname (files w))"
    and st: "\<forall>f \<in> set (glob_hl7 (files w)). stat_fault env (fname f) = None"
    and ok: "\<forall>f \<in> set (glob_hl7 (files w)). unlink_fault env (fname f) = None"
  shows "count_message_files env (before_write srv env w) =
         (if max_files srv \<le> int (count_message_files env w)
          then count_message_files env w - count_message_files env w div 2
          else count_message_files env w)"
    and "set (files (before_write srv env w)) \<subseteq> set (files w)"
proof -
  let ?w = "logger INFO (u ''File limit reached ('' @ str_nat (count_message_files env w) @ u ''/'' @
                        str_int (max_files srv) @ u ''), performing batch cleanup...'') w"
  have ok': "\<forall>p \<in> set (victims_of env ?w). unlink_fault env p = None"
    using victims_subset [of env w] ok by auto
  have "count_message_files env (cleanup_old_files env ?w) =
        count_message_files env ?w - length (listed_of env ?w) div 2"
    by (rule cleanup_count [OF g ok']) (simp add: d)
  moreover have "length (listed_of env w) = count_message_files env w"
    using length_listed_all_stat [OF st] g by (simp add: count_message_files_def)
  ultimately show "count_message_files env (before_write srv env w) =
         (if max_files srv \<le> int (count_message_files env w)
          then count_message_files env w - count_message_files env w div 2
          else count_message_files env w)"
    by (simp add: before_write_def)
  show "set (files (before_write srv env w)) \<subseteq> set (files w)"
    by (auto simp: before_write_def cleanup_files [OF g])
qed

lemma count_save_message_new:
  assumes g: "glob_fault env = None"
    and d: "distinct (map fname (files w))"
    and st: "\<forall>f \<in> set (glob_hl7 (files w)). stat_fault env (fname f) = None"
    and ok: "\<forall>f \<in> set (glob_hl7 (files w)). unlink_fault env (fname f) = None"
    and wr: "write_fault env (message_filename (clock env (clock_reads w)) control_id msg_type) = None"
    and sl: "0x2F \<notin> set (message_filename (clock env (clock_reads w)) control_id msg_type)"
    and new: "message_filename (clock env (clock_reads w)) control_id msg_type \<notin> set (map fname (files w))"
  shows "count_message_files env (save_message srv env message_text control_id msg_type client_address w) =
         (if max_files srv \<le> int (count_message_files env w)
          then count_message_files env w - count_message_files env w div 2
          else count_message_files env w) + 1"
proof -
  let ?wb = "before_write srv env w"
  let ?fn = "message_filename (clock env (clock_reads w)) control_id msg_type"
  note cb = count_before_write [OF g d st ok, of srv]
  from new cb(2) have "?fn \<notin> set (map fname (files ?wb))" by auto
  with wr sl g have "count_message_files env (save_message srv env message_text control_id msg_type client_address w) =
      count_message_files env ?wb + 1"
    unfolding count_message_files_def files_save_message
    by (simp add: length_glob_put_file_new is_hl7_message_filename)
  with cb(1) show ?thesis by simp
qed

text \<open>
  Claim C1, as the code has it. Let listing the directory, reading modification times
  and removing files all succeed, with \<open>n\<close> records stored before the call. When the limit
  is reached (\<open>n \<ge> max_files\<close>) the cleanup inside \<open>save_message\<close> removes
  \<open>floor(n/2)\<close> records and the count after the write is at most \<open>n - floor(n/2) + 1\<close>,
  exactly that when the write succeeds under a new name; below the limit it is at most
  \<open>n + 1\<close>. So for a capacity of at least 2 and a count that does not exceed the capacity
  before the call, the count does not exceed the capacity after it.
\<close>

theorem save_message_capacity:
  fixes srv env w message_text control_id msg_type client_address
  defines "n \<equiv> count_message_files env w"
      and "after \<equiv> save_message srv env message_text control_id msg_type client_address w"
      and "filename \<equiv> message_filename (clock env (clock_reads w)) control_id msg_type"
  assumes g: "glob_fault env = None"
    and d: "distinct (map fname (files w))"
    and st: "\<forall>f \<in> set (glob_hl7 (files w)). stat_fault env (fname f) = None"
    and ok: "\<forall>f \<in> set (glob_hl7 (files w)). unlink_fault env (fname f) = None"
  shows "(max_files srv \<le> int n \<longrightarrow> count_message_files env after \<le> n - n div 2 + 1) \<and>
         (int n < max_files srv \<longrightarrow> count_message_files env after \<le> n + 1) \<and>
         (2 \<le> max_files srv \<and> int n \<le> max_files srv \<longrightarrow>
            int (count_message_files env after) \<le> max_files srv) \<and>
         (max_files srv \<le> int n \<and> write_fault env filename = None \<and> 0x2F \<notin> set filename \<and>
          filename \<notin> set (map fname (files w)) \<longrightarrow>
            count_message_files env after = n - n div 2 + 1)"
proof -
  let ?wb = "before_write srv env w"
  note cb = count_before_write [OF g d st ok, of srv]
  have le: "count_message_files env after \<le> count_message_files env ?wb + 1"
    using g length_glob_put_file_le
    by (simp add: after_def count_message_files_def files_save_message
        split: option.splits write_fault.splits)
  have exact: "count_message_files env after = count_message_files env ?wb + 1"
    if "write_fault env filename = None" "0x2F \<notin> set filename" "filename \<notin> set (map fname (files w))"
    using count_save_message_new [OF g d st ok that [unfolded filename_def], of srv message_text client_address]
      cb(1)
    by (simp add: after_def)
  show ?thesis
  proof (intro conjI impI)
    show "count_message_files env after \<le> n - n div 2 + 1" if "max_files srv \<le> int n"
      using le cb(1) that by (simp add: n_def)
    show "count_message_files env after \<le> n + 1" if "int n < max_files srv"
      using le cb(1) that by (simp add: n_def)
    show "int (count_message_files env after) \<le> max_files srv"
      if "2 \<le> max_files srv \<and> int n \<le> max_files srv"
    proof (cases "max_files srv \<le> int n")
      case True
      with that have "2 \<le> n" by linarith
      then have "n - n div 2 + 1 \<le> n" by linarith
      with le cb(1) True that show ?thesis by (simp add: n_def)
    next
      case False
      with le cb(1) show ?thesis by (simp add: n_def)
    qed
    show "count_message_files env after = n - n div 2 + 1"
      if "max_files srv \<le> int n \<and> write_fault env filename = None \<and> 0x2F \<notin> set filename \<and>
          filename \<notin> set (map fname (files w))"
      using exact cb(1) that by (simp add: n_def)
  qed
qed


lemma example_filename:
  "message_filename example_now (u ''CTRL1'') (u ''ORU^W01'') = u ''20240101_120000_CTRL1_ORU_W01.hl7''"
  by (simp add: message_filename_def strftime_file_def example_now_def zpad_2 zpad_4 digit_def
      replace_def u_def)

lemma example_parse_message [simp]: "example_parse (replace LF CR example_message) = Inr example_msh"
proof -
  have "replace LF CR example_message = example_message"
    by (simp add: replace_def example_message_def u_def)
  then show ?thesis by (simp add: example_parse_def)
qed

lemma quiet_env_simps [simp]:
  "glob_fault quiet_env = None" "stat_fault quiet_env p = None" "unlink_fault quiet_env p = None"
  "write_fault quiet_env p = None" "send_fault quiet_env k = None" "clock quiet_env k = example_now"
  "fs_time quiet_env k = 100 + int k" "hl7_msh quiet_env = example_parse"
  by (simp_all add: quiet_env_def)

lemma world_of_simps [simp]:
  "files (world_of fs) = fs" "logged (world_of fs) = []" "sent (world_of fs) = []"
  "sends (world_of fs) = 0" "clock_reads (world_of fs) = 0"
  by (simp_all add: world_of_def)

lemma example_counts:
  "count_message_files quiet_env (world_of one_file) = 1"
  "count_message_files quiet_env (world_of two_files) = 2"
  "count_message_files quiet_env (world_of example_files) = 4"
  by (simp_all add: count_message_files_def glob_hl7_def is_hl7_prefix u_def one_file_def
      two_files_def example_files_def world_of_def)

lemma example_fresh:
  "0x2F \<notin> set (message_filename example_now (u ''CTRL1'') (u ''ORU^W01''))"
  "message_filename example_now (u ''CTRL1'') (u ''ORU^W01'') \<notin> fname ` set one_file"
  "message_filename example_now (u ''CTRL1'') (u ''ORU^W01'') \<notin> fname ` set two_files"
  "message_filename example_now (u ''CTRL1'') (u ''ORU^W01'') \<notin> fname ` set example_files"
  "distinct (map fname one_file)"
  "distinct (map fname two_files)"
  "distinct (map fname example_files)"
  unfolding example_filename
  by (simp_all add: one_file_def two_files_def example_files_def u_def)

lemma locked_env_simps [simp]:
  "glob_fault locked_env = None" "stat_fault locked_env p = None"
  "write_fault locked_env p = None" "clock locked_env k = example_now"
  "unlink_fault locked_env p = (if p = u ''b.hl7'' then Some (u ''Permission denied'') else None)"
  by (simp_all add: locked_env_def)

lemma locked_two_files:
  "count_message_files locked_env
     (save_message \<lparr>max_files = 2, running = True\<rparr> locked_env example_message (u ''CTRL1'')
        (u ''ORU^W01'') example_address (world_of two_files)) = 3"
proof -
  let ?w = "world_of two_files"
  let ?srv = "\<lparr>max_files = 2, running = True\<rparr>"
  have n: "count_message_files locked_env ?w = 2"
    by (simp add: count_message_files_def glob_hl7_def is_hl7_prefix two_files_def u_def)
  have v: "victims_of locked_env ?w = [u ''b.hl7'']"
    by (simp add: victims_of_def listed_of_def stat_all_def glob_hl7_def is_hl7_prefix two_files_def u_def)
  have bw: "files (before_write ?srv locked_env ?w) = two_files"
    by (simp add: before_write_def n cleanup_files v)
  have "files (save_message ?srv locked_env example_message (u ''CTRL1'') (u ''ORU^W01'') example_address ?w) =
      two_files @ [\<lparr>fname = u ''20240101_120000_CTRL1_ORU_W01.hl7'', mtime = fs_time locked_env 0,
                     body = file_text example_now example_address (u ''CTRL1'') (u ''ORU^W01'') example_message\<rparr>]"
    unfolding files_save_message bw
    by (simp add: example_filename put_file_def) (simp add: two_files_def u_def)
  then show ?thesis
    by (simp add: count_message_files_def glob_hl7_def is_hl7_prefix two_files_def u_def)
qed

text \<open>
  The claim as stated fails: with capacity 1 and one record stored, the cleanup removes
  \<open>floor(1/2) = 0\<close> records and the write leaves 2; with capacity 2 and four records
  stored, the cleanup removes two and the write leaves 3; with capacity 2 and two records
  stored, of which the older cannot be removed, the write leaves 3.
\<close>

theorem save_message_capacity_counterexample:
  "1 \<le> max_files \<lparr>max_files = 1, running = True\<rparr> \<and>
   count_message_files quiet_env (world_of one_file) = 1 \<and>
   count_message_files quiet_env
     (save_message \<lparr>max_files = 1, running = True\<rparr> quiet_env example_message (u ''CTRL1'')
        (u ''ORU^W01'') example_address (world_of one_file)) = 2 \<and>
   count_message_files quiet_env
     (save_message \<lparr>max_files = 2, running = True\<rparr> quiet_env example_message (u ''CTRL1'')
        (u ''ORU^W01'') example_address (world_of example_files)) = 3 \<and>
   count_message_files locked_env
     (save_message \<lparr>max_files = 2, running = True\<rparr> locked_env example_message (u ''CTRL1'')
        (u ''ORU^W01'') example_address (world_of two_files)) = 3"
proof -
  have "count_message_files quiet_env
     (save_message \<lparr>max_files = 1, running = True\<rparr> quiet_env example_message (u ''CTRL1'')
        (u ''ORU^W01'') example_address (world_of one_file)) = 2"
    by (subst count_save_message_new) (simp_all add: example_fresh example_counts)
  moreover have "count_message_files quiet_env
     (save_message \<lparr>max_files = 2, running = True\<rparr> quiet_env example_message (u ''CTRL1'')
        (u ''ORU^W01'') example_address (world_of example_files)) = 3"
    by (subst count_save_message_new) (simp_all add: example_fresh example_counts)
  ultimately show ?thesis by (simp add: example_counts locked_two_files)
qed

theorem save_message_capacity_witness:
  "2 \<le> max_files \<lparr>max_files = 2, running = True\<rparr> \<and>
   count_message_files quiet_env (world_of two_files) = 2 \<and>
   count_message_files quiet_env
     (save_message \<lparr>max_files = 2, running = True\<rparr> quiet_env example_message (u ''CTRL1'')
        (u ''ORU^W01'') example_address (world_of two_files)) = 2"
proof -
  let ?srv = "\<lparr>max_files = 2, running = True\<rparr>"
  let ?w = "world_of two_files"
  have h: "glob_fault quiet_env = None" "distinct (map fname (files ?w))"
    "\<forall>f \<in> set (glob_hl7 (files ?w)). stat_fault quiet_env (fname f) = None"
    "\<forall>f \<in> set (glob_hl7 (files ?w)). unlink_fault quiet_env (fname f) = None"
    by (simp_all add: example_fresh)
  have c: "max_files ?srv \<le> int (count_message_files quiet_env ?w)"
    "2 \<le> max_files ?srv \<and> int (count_message_files quiet_env ?w) \<le> max_files ?srv"
    "write_fault quiet_env (message_filename (clock quiet_env (clock_reads ?w)) (u ''CTRL1'') (u ''ORU^W01'')) = None"
    by (simp_all add: example_counts)
  from save_message_capacity [OF h, of ?srv example_message "u ''CTRL1''" "u ''ORU^W01''" example_address]
    c example_fresh(1) example_fresh(3)
  have "count_message_files quiet_env
     (save_message ?srv quiet_env example_message (u ''CTRL1'') (u ''ORU^W01'') example_address ?w) =
     count_message_files quiet_env ?w - count_message_files quiet_env ?w div 2 + 1"
    by simp
  then show ?thesis by (simp add: example_counts)
qed

section \<open>Connection handler: acknowledgments and failures\<close>

lemma wire_logger [simp]: "sent (logger lvl msg w) = sent w" "sends (logger lvl msg w) = sends w"
  by (simp_all add: logger_def)

lemma wire_tick [simp]: "sent (tick w) = sent w" "sends (tick w) = sends w"
  "clock_reads (tick w) = clock_reads w + 1"
  by (simp_all add: tick_def)

lemma wire_cleanup [simp]:
  "sent (cleanup_old_files env w) = sent w" "sends (cleanup_old_files env w) = sends w"
  by (auto simp: cleanup_old_files_def Let_def logger_def unlink_each_result split: option.splits)

lemma wire_before_write [simp]:
  "sent (before_write srv env w) = sent w" "sends (before_write srv env w) = sends w"
  by (simp_all add: before_write_def)

lemma save_message_before_write:
  "save_message srv env message_text control_id msg_type client_address w =
     (let w1 = tick (before_write srv env w);
          filename = message_filename (clock env (clock_reads w)) control_id msg_type
      in case write_fault env filename of
           Some (OpenFails e) \<Rightarrow> logger ERROR (u ''Failed to save message: '' @ e) w1
         | Some (WriteFails e) \<Rightarrow>
             logger ERROR (u ''Failed to save message: '' @ e)
               (w1\<lparr>files := put_file \<lparr>fname = filename, mtime = fs_time env (clock_reads w), body = []\<rparr> (files w1)\<rparr>)
         | None \<Rightarrow>
             (let w2 = w1\<lparr>files := put_file \<lparr>fname = filename, mtime = fs_time env (clock_reads w),
                        body = file_text (clock env (clock_reads w)) client_address control_id msg_type message_text\<rparr> (files w1)\<rparr>
              in logger INFO (u ''Message saved to '' @ filename @ u '' ('' @ str_nat (count_message_files env w2) @
                              u ''/'' @ str_int (max_files srv) @ u '' files)'') w2))"
  unfolding save_message_def Let_def before_write_def
  by (simp cong del: option.case_cong_weak write_fault.case_cong_weak
      cong: option.case_cong write_fault.case_cong)

lemma wire_save_message [simp]:
  "sent (save_message srv env message_text control_id msg_type client_address w) = sent w"
  "sends (save_message srv env message_text control_id msg_type client_address w) = sends w"
  "clock_reads (save_message srv env message_text control_id msg_type client_address w) = clock_reads w + 1"
  by (simp_all add: save_message_before_write Let_def split: option.splits write_fault.splits)

lemma wire_saved [simp]:
  "sent (saved srv env a t msh w) = sent w" "sends (saved srv env a t msh w) = sends w"
  "clock_reads (saved srv env a t msh w) = clock_reads w + 1"
  by (simp_all add: saved_def)

lemma try_process_unparsed:
  "hl7_msh env (replace LF CR message_text) = Inl e \<Longrightarrow>
   try_process srv env client_address message_text w = (Some e, w)"
  by (simp add: try_process_def)

lemma try_process_parsed:
  assumes "hl7_msh env (replace LF CR message_text) = Inr msh"
  shows "try_process srv env client_address message_text w =
     (case create_ack (clock env (clock_reads w + 1)) msh of
        Inl e \<Rightarrow> (Some e, tick (saved srv env client_address message_text msh w))
      | Inr ack_message \<Rightarrow>
          (case send_fault env (sends w) of
             Some e \<Rightarrow> (Some e, (tick (saved srv env client_address message_text msh w))\<lparr>sends := sends w + 1\<rparr>)
           | None \<Rightarrow>
               (None, logger INFO (u ''ACK sent for message '' @ header_field msh 10)
                  ((tick (saved srv env client_address message_text msh w))
                     \<lparr>sent := sent w @ [ack_message], sends := sends w + 1\<rparr>))))"
  using assms
  by (simp add: try_process_def Let_def saved_def [symmetric] header_field_def [symmetric] send_def
      split: sum.splits option.splits)


lemma try_process_failed_wire:
  assumes "fst (try_process srv env client_address message_text w) = Some e"
  shows "sent (snd (try_process srv env client_address message_text w)) = sent w"
proof (cases "hl7_msh env (replace LF CR message_text)")
  case (Inl e')
  then show ?thesis by (simp add: try_process_unparsed)
next
  case (Inr msh)
  show ?thesis
    using assms unfolding try_process_parsed [OF Inr]
    by (simp split: sum.splits option.splits)
qed

lemma sent_send_nak:
  "sent (send_nak env e w) =
     (case send_fault env (sends w) of
        None \<Rightarrow> sent w @ [create_nak (clock env (clock_reads w)) (u ''UNKNOWN'') e]
      | Some e' \<Rightarrow> sent w)"
  by (simp add: send_nak_def Let_def send_def split: option.splits)

lemma process_message_proj:
  "process_message srv env client_address message_text w =
     (case fst (try_process srv env client_address message_text w) of
        None \<Rightarrow> snd (try_process srv env client_address message_text w)
      | Some e \<Rightarrow> send_nak env e (snd (try_process srv env client_address message_text w)))"
  by (simp add: process_message_def case_prod_beta)

lemma nak_unknown_text:
  "create_nak now (u ''UNKNOWN'') e =
     (u ''MSH|^~'' @ [BACKSLASH] @ u ''&|HL7_SERVER||||'' @ strftime_compact now @
      u ''||ACK|UNKNOWN_NAK|P|2.3.1'') @ [CR] @ (u ''MSA|AE|UNKNOWN|'' @ take 100 e) @ [CR] @ [FS]"
  by (simp add: create_nak_def Let_def u_def)

lemma nak_unknown_fields:
  assumes "BAR \<notin> set e"
  shows "split_on BAR (u ''MSH|^~'' @ [BACKSLASH] @ u ''&|HL7_SERVER||||'' @ strftime_compact now @
                       u ''||ACK|UNKNOWN_NAK|P|2.3.1'') ! 9 = u ''UNKNOWN_NAK''"
    and "split_on BAR (u ''MSA|AE|UNKNOWN|'' @ take 100 e) = [u ''MSA'', u ''AE'', u ''UNKNOWN'', take 100 e]"
proof -
  let ?ps = "[u ''MSH'', u ''^~'' @ [BACKSLASH] @ u ''&'', u ''HL7_SERVER'', [], [], [],
              strftime_compact now, [], u ''ACK'', u ''UNKNOWN_NAK'', u ''P'', u ''2.3.1'']"
  have "u ''MSH|^~'' @ [BACKSLASH] @ u ''&|HL7_SERVER||||'' @ strftime_compact now @
        u ''||ACK|UNKNOWN_NAK|P|2.3.1'' = join BAR ?ps"
    by (simp add: u_def)
  moreover have "split_on BAR (join BAR ?ps) = ?ps"
    by (rule split_on_join) (auto simp: u_def strftime_compact_no_BAR)
  ultimately show "split_on BAR (u ''MSH|^~'' @ [BACKSLASH] @ u ''&|HL7_SERVER||||'' @ strftime_compact now @
                       u ''||ACK|UNKNOWN_NAK|P|2.3.1'') ! 9 = u ''UNKNOWN_NAK''"
    by simp
  let ?qs = "[u ''MSA'', u ''AE'', u ''UNKNOWN'', take 100 e]"
  have "u ''MSA|AE|UNKNOWN|'' @ take 100 e = join BAR ?qs" by (simp add: u_def)
  moreover have "split_on BAR (join BAR ?qs) = ?qs"
    by (rule split_on_join) (use assms in \<open>auto simp: u_def dest: in_set_takeD\<close>)
  ultimately show "split_on BAR (u ''MSA|AE|UNKNOWN|'' @ take 100 e) = ?qs" by simp
qed

text \<open>
  Claim C9. When the \<open>try\<close> block of \<open>process_message\<close> raises \<open>e\<close>, whatever the message
  and wherever the failure occurred, the only text the handler puts on the wire is
  \<open>create_nak("UNKNOWN", str(e))\<close> (nothing, when that \<open>send\<close> fails too): its header
  carries the control id field \<open>UNKNOWN_NAK\<close> and its MSA segment the control id
  \<open>UNKNOWN\<close>, never a control id taken from the message.
\<close>

theorem nak_control_id_unknown:
  fixes srv env client_address message_text w e
  defines "w1 \<equiv> snd (try_process srv env client_address message_text w)"
  defines "nak \<equiv> create_nak (clock env (clock_reads w1)) (u ''UNKNOWN'') e"
      and "hdr \<equiv> u ''MSH|^~'' @ [BACKSLASH] @ u ''&|HL7_SERVER||||'' @
                  strftime_compact (clock env (clock_reads w1)) @ u ''||ACK|UNKNOWN_NAK|P|2.3.1''"
      and "msa \<equiv> u ''MSA|AE|UNKNOWN|'' @ take 100 e"
  assumes fail: "fst (try_process srv env client_address message_text w) = Some e"
  shows "(send_fault env (sends w1) = None \<longrightarrow>
            sent (process_message srv env client_address message_text w) = sent w @ [nak]) \<and>
         (send_fault env (sends w1) \<noteq> None \<longrightarrow>
            sent (process_message srv env client_address message_text w) = sent w) \<and>
         nak = hdr @ [CR] @ msa @ [CR] @ [FS] \<and>
         (BAR \<notin> set e \<longrightarrow>
            split_on BAR hdr ! 9 = u ''UNKNOWN_NAK'' \<and>
            split_on BAR msa = [u ''MSA'', u ''AE'', u ''UNKNOWN'', take 100 e])"
proof (intro conjI impI)
  have pm: "process_message srv env client_address message_text w = send_nak env e w1"
    by (simp add: process_message_proj fail w1_def)
  have w: "sent w1 = sent w"
    unfolding w1_def by (rule try_process_failed_wire [OF fail])
  show "sent (process_message srv env client_address message_text w) = sent w @ [nak]"
    if "send_fault env (sends w1) = None"
    using that by (simp add: pm sent_send_nak w nak_def)
  show "sent (process_message srv env client_address message_text w) = sent w"
    if "send_fault env (sends w1) \<noteq> None"
    using that by (auto simp: pm sent_send_nak w)
  show "nak = hdr @ [CR] @ msa @ [CR] @ [FS]"
    unfolding nak_def hdr_def msa_def by (rule nak_unknown_text)
  show "split_on BAR hdr ! 9 = u ''UNKNOWN_NAK''" if "BAR \<notin> set e"
    unfolding hdr_def by (rule nak_unknown_fields(1) [OF that])
  show "split_on BAR msa = [u ''MSA'', u ''AE'', u ''UNKNOWN'', take 100 e]" if "BAR \<notin> set e"
    unfolding msa_def by (rule nak_unknown_fields(2) [OF that])
qed


lemma try_process_raises_iff:
  "fst (try_process srv env client_address message_text w) = Some e \<longleftrightarrow>
     hl7_msh env (replace LF CR message_text) = Inl e \<or>
     (\<exists>msh. hl7_msh env (replace LF CR message_text) = Inr msh \<and>
        (create_ack (clock env (clock_reads w + 1)) msh = Inl e \<or>
         (\<exists>ack. create_ack (clock env (clock_reads w + 1)) msh = Inr ack \<and>
                send_fault env (sends w) = Some e)))"
proof (cases "hl7_msh env (replace LF CR message_text)")
  case (Inl e')
  then show ?thesis by (simp add: try_process_unparsed)
next
  case (Inr msh)
  show ?thesis
    unfolding try_process_parsed [OF Inr] Inr
    by (simp split: sum.splits option.splits)
qed

lemma process_message_acks:
  assumes "hl7_msh env (replace LF CR message_text) = Inr msh"
    and "create_ack (clock env (clock_reads w + 1)) msh = Inr ack"
    and "send_fault env (sends w) = None"
  shows "fst (try_process srv env client_address message_text w) = None"
    and "sent (process_message srv env client_address message_text w) = sent w @ [ack]"
  using assms(2,3) by (simp_all add: process_message_proj try_process_parsed [OF assms(1)])




lemma logged_tick [simp]: "logged (tick w) = logged w"
  by (simp add: tick_def)

lemma logged_logger [simp]: "logged (logger lvl msg w) = logged w @ [(lvl, msg)]"
  by (simp add: logger_def)

text \<open>
  Claim C3, as the code has it. \<open>save_message\<close> returns nothing. When the write succeeds
  the file is in the directory and the file name is logged; when \<open>open\<close> or the write
  raises, the exception is caught inside \<open>save_message\<close> and logged as an error. It sends
  nothing, and its caller cannot see the difference: for a header that \<open>create_ack\<close>
  accepts and a working socket, \<open>process_message\<close> replies with the positive
  acknowledgment whatever the outcome of the write.
\<close>

theorem save_message_swallows_failure:
  fixes srv env message_text control_id msg_type client_address w
  defines "wb \<equiv> before_write srv env w"
      and "filename \<equiv> message_filename (clock env (clock_reads w)) control_id msg_type"
      and "after \<equiv> save_message srv env message_text control_id msg_type client_address w"
  shows "(write_fault env filename = None \<longrightarrow>
            files after =
              put_file \<lparr>fname = filename, mtime = fs_time env (clock_reads w),
                        body = file_text (clock env (clock_reads w)) client_address control_id
                                 msg_type message_text\<rparr> (files wb) \<and>
            logged after = logged wb @
              [(INFO, u ''Message saved to '' @ filename @ u '' ('' @
                      str_nat (count_message_files env after) @ u ''/'' @
                      str_int (max_files srv) @ u '' files)'')]) \<and>
         (\<forall>e. write_fault env filename = Some (OpenFails e) \<longrightarrow>
            files after = files wb \<and>
            logged after = logged wb @ [(ERROR, u ''Failed to save message: '' @ e)]) \<and>
         (\<forall>e. write_fault env filename = Some (WriteFails e) \<longrightarrow>
            files after =
              put_file \<lparr>fname = filename, mtime = fs_time env (clock_reads w), body = []\<rparr> (files wb) \<and>
            logged after = logged wb @ [(ERROR, u ''Failed to save message: '' @ e)]) \<and>
         sent after = sent w \<and> sends after = sends w \<and>
         (\<forall>msh ack. hl7_msh env (replace LF CR message_text) = Inr msh \<and>
            create_ack (clock env (clock_reads w + 1)) msh = Inr ack \<and>
            send_fault env (sends w) = None \<longrightarrow>
            sent (process_message srv env client_address message_text w) = sent w @ [ack])"
proof (intro conjI impI allI)
  show "sent after = sent w" "sends after = sends w"
    by (simp_all add: after_def)
  show "files after =
      put_file \<lparr>fname = filename, mtime = fs_time env (clock_reads w),
                body = file_text (clock env (clock_reads w)) client_address control_id
                         msg_type message_text\<rparr> (files wb)"
    if "write_fault env filename = None"
    using that unfolding after_def filename_def wb_def
    by (simp add: save_message_before_write Let_def)
  show "logged after = logged wb @
      [(INFO, u ''Message saved to '' @ filename @ u '' ('' @
              str_nat (count_message_files env after) @ u ''/'' @
              str_int (max_files srv) @ u '' files)'')]"
    if "write_fault env filename = None"
    using that unfolding after_def filename_def wb_def
    by (simp add: save_message_before_write Let_def count_message_files_def split: option.splits)
  show "files after = files wb" if "write_fault env filename = Some (OpenFails e)" for e
    using that unfolding after_def filename_def wb_def
    by (simp add: save_message_before_write Let_def)
  show "logged after = logged wb @ [(ERROR, u ''Failed to save message: '' @ e)]"
    if "write_fault env filename = Some (OpenFails e)" for e
    using that unfolding after_def filename_def wb_def
    by (simp add: save_message_before_write Let_def)
  show "files after =
      put_file \<lparr>fname = filename, mtime = fs_time env (clock_reads w), body = []\<rparr> (files wb)"
    if "write_fault env filename = Some (WriteFails e)" for e
    using that unfolding after_def filename_def wb_def
    by (simp add: save_message_before_write Let_def)
  show "logged after = logged wb @ [(ERROR, u ''Failed to save message: '' @ e)]"
    if "write_fault env filename = Some (WriteFails e)" for e
    using that unfolding after_def filename_def wb_def
    by (simp add: save_message_before_write Let_def)
  show "sent (process_message srv env client_address message_text w) = sent w @ [ack]"
    if "hl7_msh env (replace LF CR message_text) = Inr msh \<and>
        create_ack (clock env (clock_reads w + 1)) msh = Inr ack \<and>
        send_fault env (sends w) = None" for msh ack
    by (rule process_message_acks(2) [OF that [THEN conjunct1] that [THEN conjunct2, THEN conjunct1]
          that [THEN conjunct2, THEN conjunct2]])
qed


lemma create_ack_example: "create_ack example_now example_msh = Inr example_ack"
  by (simp add: create_ack_def getitem_def example_msh_def Let_def strftime_example example_ack_def u_def)

lemma create_nak_example: "length e \<le> 100 \<Longrightarrow> create_nak example_now (u ''UNKNOWN'') e = unknown_nak e"
  by (simp add: create_nak_def Let_def strftime_example unknown_nak_def u_def)

lemma example_header: "header_field example_msh 10 = u ''CTRL1''" "header_field example_msh 9 = u ''ORU^W01''"
  "header_field example_msh 3 = u ''DEV''"
  by (simp_all add: header_field_def example_msh_def)

lemma disk_full_env_simps [simp]:
  "glob_fault disk_full_env = None" "send_fault disk_full_env k = None"
  "clock disk_full_env k = example_now" "hl7_msh disk_full_env = example_parse"
  "write_fault disk_full_env p = Some (OpenFails (u ''[Errno 28] No space left on device''))"
  by (simp_all add: disk_full_env_def)

lemma ack_lost_env_simps [simp]:
  "send_fault ack_lost_env 0 = Some (u ''[Errno 32] Broken pipe'')"
  "send_fault ack_lost_env (Suc k) = None"
  "clock ack_lost_env k = example_now" "hl7_msh ack_lost_env = example_parse"
  by (simp_all add: ack_lost_env_def)


lemma before_write_empty: "max_files srv > 0 \<Longrightarrow> before_write srv env (world_of []) = world_of []"
  "max_files srv > 0 \<Longrightarrow> before_write srv env (logger lvl msg (world_of [])) = logger lvl msg (world_of [])"
  by (simp_all add: before_write_def count_message_files_def glob_hl7_def split: option.splits)

text \<open>
  The claim as stated fails: with a full disk \<open>open\<close> raises, no file is stored, and the
  reply to the client is the same as when the message was stored.
\<close>

theorem save_message_swallows_failure_counterexample:
  "write_fault disk_full_env (message_filename example_now (u ''CTRL1'') (u ''ORU^W01'')) =
     Some (OpenFails (u ''[Errno 28] No space left on device'')) \<and>
   files (save_message example_server disk_full_env example_message (u ''CTRL1'') (u ''ORU^W01'')
            example_address (world_of [])) = [] \<and>
   sent (process_message example_server disk_full_env example_address example_message (world_of [])) =
     sent (process_message example_server quiet_env example_address example_message (world_of []))"
proof -
  have "files (save_message example_server disk_full_env example_message (u ''CTRL1'') (u ''ORU^W01'')
            example_address (world_of [])) = []"
    by (simp add: files_save_message before_write_empty example_server_def)
  moreover have "sent (process_message example_server disk_full_env example_address example_message (world_of [])) =
      sent (world_of []) @ [example_ack]"
    by (rule process_message_acks(2) [where msh = example_msh]) (simp_all add: create_ack_example)
  moreover have "sent (process_message example_server quiet_env example_address example_message (world_of [])) =
      sent (world_of []) @ [example_ack]"
    by (rule process_message_acks(2) [where msh = example_msh]) (simp_all add: create_ack_example)
  ultimately show ?thesis by simp
qed

theorem save_message_swallows_failure_witness:
  "write_fault disk_full_env (message_filename (clock disk_full_env (clock_reads (world_of one_file)))
     (u ''CTRL1'') (u ''ORU^W01'')) = Some (OpenFails (u ''[Errno 28] No space left on device'')) \<and>
   write_fault quiet_env (message_filename (clock quiet_env (clock_reads (world_of one_file)))
     (u ''CTRL1'') (u ''ORU^W01'')) = None \<and>
   map fname (files (save_message example_server disk_full_env example_message (u ''CTRL1'') (u ''ORU^W01'')
            example_address (world_of one_file))) = [u ''a.hl7''] \<and>
   logged (save_message example_server disk_full_env example_message (u ''CTRL1'') (u ''ORU^W01'')
            example_address (world_of one_file)) =
     [(ERROR, u ''Failed to save message: [Errno 28] No space left on device'')] \<and>
   map fname (files (save_message example_server quiet_env example_message (u ''CTRL1'') (u ''ORU^W01'')
            example_address (world_of one_file))) =
     [u ''a.hl7'', u ''20240101_120000_CTRL1_ORU_W01.hl7'']"
proof -
  let ?w = "world_of one_file"
  have bw: "before_write example_server env ?w = ?w" for env
    by (simp add: before_write_def count_message_files_def glob_hl7_def is_hl7_prefix one_file_def
        u_def example_server_def split: option.splits)
  have f1: "write_fault disk_full_env (message_filename (clock disk_full_env (clock_reads ?w))
     (u ''CTRL1'') (u ''ORU^W01'')) = Some (OpenFails (u ''[Errno 28] No space left on device''))"
    and f2: "write_fault quiet_env (message_filename (clock quiet_env (clock_reads ?w))
     (u ''CTRL1'') (u ''ORU^W01'')) = None"
    by simp_all
  note T1 = save_message_swallows_failure [of disk_full_env ?w "u ''CTRL1''" "u ''ORU^W01''"
      example_server example_message example_address]
  note T2 = save_message_swallows_failure [of quiet_env ?w "u ''CTRL1''" "u ''ORU^W01''"
      example_server example_message example_address]
  from T1 f1 have a: "files (save_message example_server disk_full_env example_message (u ''CTRL1'')
        (u ''ORU^W01'') example_address ?w) = files (before_write example_server disk_full_env ?w)"
    and b: "logged (save_message example_server disk_full_env example_message (u ''CTRL1'')
        (u ''ORU^W01'') example_address ?w) =
        logged (before_write example_server disk_full_env ?w) @
        [(ERROR, u ''Failed to save message: '' @ u ''[Errno 28] No space left on device'')]"
    by blast+
  from T2 f2 have c: "files (save_message example_server quiet_env example_message (u ''CTRL1'')
        (u ''ORU^W01'') example_address ?w) =
        put_file \<lparr>fname = message_filename (clock quiet_env (clock_reads ?w)) (u ''CTRL1'') (u ''ORU^W01''),
                  mtime = fs_time quiet_env (clock_reads ?w),
                  body = file_text (clock quiet_env (clock_reads ?w)) example_address (u ''CTRL1'')
                           (u ''ORU^W01'') example_message\<rparr>
          (files (before_write example_server quiet_env ?w))"
    by blast
  have d: "map fname (files (save_message example_server quiet_env example_message (u ''CTRL1'')
        (u ''ORU^W01'') example_address ?w)) = [u ''a.hl7'', u ''20240101_120000_CTRL1_ORU_W01.hl7'']"
    unfolding c bw
    by (simp add: example_filename put_file_def one_file_def) (simp add: u_def)
  show ?thesis
    using f1 f2 d unfolding a b bw by (simp add: one_file_def u_def)
qed




theorem nak_control_id_unknown_witness:
  "header_field example_msh 10 = u ''CTRL1'' \<and>
   fst (try_process example_server ack_lost_env example_address example_message (world_of [])) =
     Some (u ''[Errno 32] Broken pipe'') \<and>
   sent (process_message example_server ack_lost_env example_address example_message (world_of [])) =
     [unknown_nak (u ''[Errno 32] Broken pipe'')] \<and>
   split_on BAR (u ''MSA|AE|UNKNOWN|'' @ take 100 (u ''[Errno 32] Broken pipe'')) =
     [u ''MSA'', u ''AE'', u ''UNKNOWN'', u ''[Errno 32] Broken pipe'']"
proof -
  let ?e = "u ''[Errno 32] Broken pipe''"
  let ?w = "world_of []"
  have fail: "fst (try_process example_server ack_lost_env example_address example_message ?w) = Some ?e"
    by (simp add: try_process_raises_iff create_ack_example)
  have w1: "sends (snd (try_process example_server ack_lost_env example_address example_message ?w)) = Suc 0"
    "clock_reads (snd (try_process example_server ack_lost_env example_address example_message ?w)) = 2"
    by (simp_all add: try_process_parsed [of ack_lost_env example_message example_msh] create_ack_example)
  have ok: "send_fault ack_lost_env
      (sends (snd (try_process example_server ack_lost_env example_address example_message ?w))) = None"
    unfolding w1 by simp
  have b: "BAR \<notin> set ?e" "length ?e \<le> 100" by (simp_all add: u_def)
  from nak_control_id_unknown [OF fail] ok b(1)
  have s: "sent (process_message example_server ack_lost_env example_address example_message ?w) =
        sent ?w @ [create_nak (clock ack_lost_env
          (clock_reads (snd (try_process example_server ack_lost_env example_address example_message ?w))))
          (u ''UNKNOWN'') ?e]"
    and f: "split_on BAR (u ''MSA|AE|UNKNOWN|'' @ take 100 ?e) = [u ''MSA'', u ''AE'', u ''UNKNOWN'', take 100 ?e]"
    by blast+
  show ?thesis
    using fail f b(2) unfolding s by (simp add: example_header create_nak_example)
qed






section \<open>Connection handler: undecodable bytes\<close>

lemma process_message_quiet:
  "sent (process_message example_server quiet_env example_address example_message (world_of [])) =
     [example_ack]"
proof -
  have "sent (process_message example_server quiet_env example_address example_message (world_of [])) =
      sent (world_of []) @ [example_ack]"
    by (rule process_message_acks(2) [where msh = example_msh]) (simp_all add: create_ack_example)
  then show ?thesis by simp
qed

lemma decode_example_bytes:
  "decode_ignore [0xFF] = []"
  "decode_ignore (example_bytes @ [0x1C]) = example_message @ [FS]"
  "decode_ignore (0xFF # example_bytes @ [0x1C]) = example_message @ [FS]"
  by (simp_all add: example_bytes_def example_message_def u_def)

lemma frame_loop_example:
  "frame_loop process (example_message @ [FS]) w = ([], process example_message w)"
proof -
  have c: "FS \<notin> set example_message" "CR \<notin> set example_message" "example_message \<noteq> []"
    "\<not> is_space (hd example_message)" "\<not> is_space (last example_message)"
    by (simp_all add: example_message_def u_def is_space_def)
  have o: "only_term FS (example_message @ FS # [])"
    using c(1,2) by (auto simp: only_term_def list_all_iff)
  have "frame_loop process (example_message @ FS # []) w =
      frame_loop process [] (if strip example_message \<noteq> [] then process (strip example_message) w else w)"
    by (rule frame_loop_cons [OF o c(1)])
  then show ?thesis
    by (simp add: strip_clean [OF c(3,4,5)] c(3) frame_loop_none)
qed

text \<open>
  Claim C10 at the input where the code departs from it. Invalid bytes inside a read are
  dropped by the decoder and the rest of the read is framed and processed. But the test
  for the end of the stream is made on the decoded text: a read made only of undecodable
  bytes (here the single byte 0xFF) decodes to the empty text and ends the connection, so
  the message in the next read is never read and nothing is answered.
\<close>

theorem undecodable_chunk_closes_connection:
  "decode_ignore [0xFF] = [] \<and>
   handle_client example_server quiet_env example_address
     [Data [0xFF], Data (example_bytes @ [0x1C])] (world_of []) =
     ([Data (example_bytes @ [0x1C])],
      logger INFO (u ''Connection closed for '' @ repr_address example_address) (world_of [])) \<and>
   sent (snd (handle_client example_server quiet_env example_address
     [Data [0xFF], Data (example_bytes @ [0x1C])] (world_of []))) = [] \<and>
   fst (handle_client example_server quiet_env example_address
     [Data (0xFF # example_bytes @ [0x1C])] (world_of [])) = [] \<and>
   sent (snd (handle_client example_server quiet_env example_address
     [Data (0xFF # example_bytes @ [0x1C])] (world_of []))) = [example_ack] \<and>
   sent (snd (handle_client example_server quiet_env example_address
     [Data (example_bytes @ [0x1C])] (world_of []))) = [example_ack]"
proof -
  let ?p = "process_message example_server quiet_env example_address"
  note d = decode_example_bytes
  have ne: "example_message @ [FS] \<noteq> []" by simp
  have run: "running example_server" by (simp add: example_server_def)
  have r1: "receive_loop ?p [Data [0xFF], Data (example_bytes @ [0x1C])] [] (world_of []) =
      ([Data (example_bytes @ [0x1C])], None, world_of [])"
    by (simp add: d)
  have r2: "receive_loop ?p [Data (0xFF # example_bytes @ [0x1C])] [] (world_of []) =
      ([], None, ?p example_message (world_of []))"
    using ne by (simp add: d frame_loop_example del: append_is_Nil_conv)
  have r3: "receive_loop ?p [Data (example_bytes @ [0x1C])] [] (world_of []) =
      ([], None, ?p example_message (world_of []))"
    using ne by (simp add: d frame_loop_example del: append_is_Nil_conv)
  have h1: "handle_client example_server quiet_env example_address
      [Data [0xFF], Data (example_bytes @ [0x1C])] (world_of []) =
      ([Data (example_bytes @ [0x1C])],
       logger INFO (u ''Connection closed for '' @ repr_address example_address) (world_of []))"
    unfolding handle_client_def r1 using run by simp
  have h2: "handle_client example_server quiet_env example_address
      [Data (0xFF # example_bytes @ [0x1C])] (world_of []) =
      ([], logger INFO (u ''Connection closed for '' @ repr_address example_address)
             (?p example_message (world_of [])))"
    unfolding handle_client_def r2 using run by simp
  have h3: "handle_client example_server quiet_env example_address
      [Data (example_bytes @ [0x1C])] (world_of []) =
      ([], logger INFO (u ''Connection closed for '' @ repr_address example_address)
             (?p example_message (world_of [])))"
    unfolding handle_client_def r3 using run by simp
  show ?thesis unfolding h1 h2 h3 by (simp add: d process_message_quiet)
qed

end
